theory Spec2Isabelle
  imports Main "HOL-Library.AList" "HOL-Library.Sublist"
begin

text \<open>
  A model of the templated catalog backend of keystone
  (\<^verbatim>\<open>keystone/catalog/backends/templated.py\<close>) and of the endpoint filter extension
  (\<^verbatim>\<open>keystone/contrib/endpoint_filter/core.py\<close> and
  \<^verbatim>\<open>keystone/contrib/endpoint_filter/backends/catalog_templated.py\<close>). Each function of the
  sources is a function here, under its own name; a loop is a recursive function over the
  list it iterates, an exception is a value \<open>Inl e\<close> of a sum type, and the store behind
  the endpoint filter manager is a record that is passed along and returned.
\<close>

section \<open>Python values, exceptions and dictionaries\<close>

text \<open>
  The values that occur in endpoint, service and filter dictionaries: strings, booleans,
  lists and nested dictionaries.
\<close>

datatype pyval =
    PyNone
  | Str string
  | Bool bool
  | Lst "pyval list"
  | Dct "(string \<times> pyval) list"

text \<open>The exceptions raised by the modelled code; the argument is the offending key or id.\<close>

datatype exn =
    KeyError string
  | ValueError
  | IndexError
  | TypeError
  | AttributeError
  | MalformedEndpoint
  | EndpointNotFound pyval
  | ServiceNotFound pyval
  | ProjectNotFound string
  | EndpointGroupNotFound string

text \<open>
  A dictionary is an association list, in the order in which the program iterates over
  it; \<open>map_of\<close> is the lookup and \<open>AList.update\<close> the assignment \<^verbatim>\<open>d[k] = v\<close> (an
  existing key keeps its place, a new key goes to the end). The properties proved below are
  about every order of the dictionaries that are given, and none of them is about the order
  of a dictionary that the program builds.
\<close>

type_synonym ('k, 'v) dict = "('k \<times> 'v) list"

definition dict_get :: "('k, 'v) dict \<Rightarrow> 'k \<Rightarrow> 'v \<Rightarrow> 'v" where
  "dict_get d k dflt = (case map_of d k of None \<Rightarrow> dflt | Some v \<Rightarrow> v)"

definition getitem :: "(string, 'v) dict \<Rightarrow> string \<Rightarrow> exn + 'v" where
  "getitem d k = (case map_of d k of None \<Rightarrow> Inl (KeyError k) | Some v \<Rightarrow> Inr v)"

definition delitem :: "(string, 'v) dict \<Rightarrow> string \<Rightarrow> exn + (string, 'v) dict" where
  "delitem d k = (if map_of d k = None then Inl (KeyError k) else Inr (AList.delete k d))"

definition subscript :: "'a list \<Rightarrow> nat \<Rightarrow> exn + 'a" where
  "subscript xs i = (if i < length xs then Inr (xs ! i) else Inl IndexError)"

fun truthy :: "pyval \<Rightarrow> bool" where
  "truthy PyNone = False"
| "truthy (Str s) = (s \<noteq> [])"
| "truthy (Bool b) = b"
| "truthy (Lst xs) = (xs \<noteq> [])"
| "truthy (Dct d) = (d \<noteq> [])"

fun hashable :: "pyval \<Rightarrow> bool" where
  "hashable PyNone = True"
| "hashable (Str s) = True"
| "hashable (Bool b) = True"
| "hashable (Lst xs) = False"
| "hashable (Dct d) = False"

section \<open>String methods\<close>

fun str_contains :: "string \<Rightarrow> string \<Rightarrow> bool" where
  "str_contains sub [] = (sub = [])"
| "str_contains sub (c # cs) = (prefix sub (c # cs) \<or> str_contains sub cs)"

function str_split_from :: "string \<Rightarrow> string \<Rightarrow> string \<Rightarrow> string list" where
  "str_split_from sep cur [] = [rev cur]"
| "str_split_from sep cur (c # cs) =
     (if sep \<noteq> [] \<and> prefix sep (c # cs)
      then rev cur # str_split_from sep [] (drop (length sep) (c # cs))
      else str_split_from sep (c # cur) cs)"
  by pat_completeness auto
termination
  by (relation "measure (\<lambda>(sep, cur, s). length s)") (auto simp: neq_Nil_conv)

definition str_split :: "string \<Rightarrow> string \<Rightarrow> string list" where
  "str_split sep s = str_split_from sep [] s"

fun str_join :: "string \<Rightarrow> string list \<Rightarrow> string" where
  "str_join sep [] = []"
| "str_join sep [p] = p"
| "str_join sep (p # q # ps) = p @ sep @ str_join sep (q # ps)"

definition str_replace :: "string \<Rightarrow> string \<Rightarrow> string \<Rightarrow> string" where
  "str_replace old new s = str_join new (str_split old s)"

definition is_space :: "char \<Rightarrow> bool" where
  "is_space c = (c \<in> set [CHR '' '', CHR 0x09, CHR 0x0A, CHR 0x0B, CHR 0x0C, CHR 0x0D])"

definition str_lstrip :: "string \<Rightarrow> string" where
  "str_lstrip s = dropWhile is_space s"

definition str_rstrip :: "string \<Rightarrow> string" where
  "str_rstrip s = rev (dropWhile is_space (rev s))"

definition str_strip :: "string \<Rightarrow> string" where
  "str_strip s = str_rstrip (str_lstrip s)"

section \<open>Template parsing\<close>

type_synonym service_ref = "(string, string) dict"
type_synonym region_ref = "(string, service_ref) dict"
type_synonym templates = "(string, region_ref) dict"

text \<open>One iteration of the loop of \<^verbatim>\<open>parse_templates\<close>, on the dictionary built so far.\<close>

definition parse_line :: "templates \<Rightarrow> string \<Rightarrow> exn + templates" where
  "parse_line out line =
     (if \<not> str_contains '' = '' line then Inr out
      else case str_split '' = '' (str_strip line) of
        [k, v] \<Rightarrow>
          if \<not> prefix ''catalog.'' k then Inr out
          else
            let parts = str_split ''.'' k in
            (case subscript parts 1 of Inl e \<Rightarrow> Inl e | Inr region \<Rightarrow>
             case subscript parts 2 of Inl e \<Rightarrow> Inl e | Inr p2 \<Rightarrow>
             case subscript parts 3 of Inl e \<Rightarrow> Inl e | Inr p3 \<Rightarrow>
               let service = str_rstrip (str_replace ''_'' ''-'' p2);
                   key = str_rstrip p3;
                   region_ref = dict_get out region [];
                   service_ref = dict_get region_ref service [];
                   service_ref = AList.update key v service_ref;
                   region_ref = AList.update service service_ref region_ref
               in Inr (AList.update region region_ref out))
      | _ \<Rightarrow> Inl ValueError)"

fun parse_lines :: "templates \<Rightarrow> string list \<Rightarrow> exn + templates" where
  "parse_lines out [] = Inr out"
| "parse_lines out (line # rest) =
     (case parse_line out line of Inl e \<Rightarrow> Inl e | Inr out' \<Rightarrow> parse_lines out' rest)"

definition parse_templates :: "string list \<Rightarrow> exn + templates" where
  "parse_templates template_lines = parse_lines [] template_lines"

section \<open>Placeholder substitution\<close>

text \<open>
  \<^verbatim>\<open>format_url\<close> is a function of \<^verbatim>\<open>keystone/catalog/core.py\<close>, which is not among the
  sources. The functions that call it take it as a parameter of the type \<open>formatter\<close>:
  from the value, the substitutions and the tolerated keys (\<open>None\<close> when the caller
  passes none) to an exception, to no value, or to the formatted string.
\<close>

type_synonym substitutions = "(string, string) dict"

type_synonym formatter = "pyval \<Rightarrow> substitutions \<Rightarrow> string list option \<Rightarrow> exn + string option"

text \<open>
  Modelled from the spec: the substitution of the placeholders of \<^verbatim>\<open>format_url\<close>, on the
  pieces of the string that follow each \<^verbatim>\<open>$(\<close>. Placeholders are written
  \<^verbatim>\<open>$(name)s\<close>, as in the docstring of the templated \<^verbatim>\<open>Catalog\<close> class. A name missing
  from the context gives no value when it is tolerated and \<^verbatim>\<open>MalformedEndpoint\<close>
  otherwise; a placeholder that is not closed by \<^verbatim>\<open>)s\<close> is malformed.
\<close>

fun substitute :: "substitutions \<Rightarrow> string list \<Rightarrow> string list \<Rightarrow> exn + string option" where
  "substitute ctx tolerated [] = Inr (Some [])"
| "substitute ctx tolerated (p # ps) =
     (case dropWhile (\<lambda>c. c \<noteq> CHR '')'') p of
        c1 # c2 # rest \<Rightarrow>
          if c2 \<noteq> CHR ''s'' then Inl MalformedEndpoint
          else
            (let name = takeWhile (\<lambda>c. c \<noteq> CHR '')'') p in
             case map_of ctx name of
               None \<Rightarrow> if name \<in> set tolerated then Inr None else Inl MalformedEndpoint
             | Some val \<Rightarrow>
                 (case substitute ctx tolerated ps of
                    Inl e \<Rightarrow> Inl e
                  | Inr None \<Rightarrow> Inr None
                  | Inr (Some r) \<Rightarrow> Inr (Some (val @ rest @ r))))
      | _ \<Rightarrow> Inl MalformedEndpoint)"

text \<open>
  Modelled from the spec: \<^verbatim>\<open>format_url\<close> (section 4.2, the Substitutor), which
  \<^verbatim>\<open>keystone/catalog/core.py\<close> defines and the sources do not include. A value that is
  not a string is malformed.
\<close>

fun format_url :: formatter where
  "format_url (Str url) ctx silent_keyerror_failures =
     (case str_split ''$('' url of
        [] \<Rightarrow> Inl MalformedEndpoint
      | lit # ps \<Rightarrow>
          (case substitute ctx (case silent_keyerror_failures of None \<Rightarrow> [] | Some l \<Rightarrow> l) ps of
             Inl e \<Rightarrow> Inl e
           | Inr None \<Rightarrow> Inr None
           | Inr (Some r) \<Rightarrow> Inr (Some (lit @ r))))"
| "format_url v ctx silent_keyerror_failures = Inl MalformedEndpoint"

section \<open>The templated catalog\<close>

subsection \<open>The v2 catalog\<close>

text \<open>
  \<^verbatim>\<open>CONF\<close> is read through its items; \<^verbatim>\<open>return_all_endpoints_if_no_filter\<close> is the
  option of the endpoint filter extension.
\<close>

record config =
  conf_items :: "(string, string) dict"
  eventlet_server_items :: "(string, string) dict"
  return_all_endpoints_if_no_filter :: bool

text \<open>\<^verbatim>\<open>dict(pairs)\<close>: a later pair with the same key replaces the value of the earlier one.\<close>

definition dict_of :: "('k \<times> 'v) list \<Rightarrow> ('k, 'v) dict" where
  "dict_of kvs = AList.updates (map fst kvs) (map snd kvs) []"

text \<open>The substitutions and the tolerated keys that \<^verbatim>\<open>get_catalog\<close> sets up.\<close>

definition v2_substitutions :: "config \<Rightarrow> string \<Rightarrow> string option \<Rightarrow> substitutions" where
  "v2_substitutions conf user_id tenant_id =
     (let substitutions = dict_of (conf_items conf @ eventlet_server_items conf);
          substitutions = AList.update ''user_id'' user_id substitutions
      in case tenant_id of
           None \<Rightarrow> substitutions
         | Some t \<Rightarrow> if t \<noteq> [] then AList.update ''tenant_id'' t substitutions else substitutions)"

definition v2_silent_keyerror_failures :: "string option \<Rightarrow> string list" where
  "v2_silent_keyerror_failures tenant_id =
     (case tenant_id of None \<Rightarrow> [''tenant_id''] | Some t \<Rightarrow> if t \<noteq> [] then [] else [''tenant_id''])"

text \<open>The innermost loop, over the attributes of one service; it stops at the first exception.\<close>

fun format_service_ref ::
  "formatter \<Rightarrow> substitutions \<Rightarrow> string list \<Rightarrow> service_ref \<Rightarrow> (string, string) dict
   \<Rightarrow> exn + (string, string) dict" where
  "format_service_ref fmt subs silent [] service_data = Inr service_data"
| "format_service_ref fmt subs silent ((k, v) # rest) service_data =
     (case fmt (Str v) subs (Some silent) of
        Inl e \<Rightarrow> Inl e
      | Inr formatted_value \<Rightarrow>
          format_service_ref fmt subs silent rest
            (case formatted_value of
               None \<Rightarrow> service_data
             | Some s \<Rightarrow> if s \<noteq> [] then AList.update k s service_data else service_data))"

text \<open>
  The loop over the services of one region: \<^verbatim>\<open>MalformedEndpoint\<close> is caught around the whole
  attribute loop and the iteration is left with \<^verbatim>\<open>continue\<close>, before the service is stored.
\<close>

fun format_region_ref ::
  "formatter \<Rightarrow> substitutions \<Rightarrow> string list \<Rightarrow> region_ref
   \<Rightarrow> (string, (string, string) dict) dict \<Rightarrow> exn + (string, (string, string) dict) dict" where
  "format_region_ref fmt subs silent [] region_catalog = Inr region_catalog"
| "format_region_ref fmt subs silent ((service, service_ref) # rest) region_catalog =
     (case format_service_ref fmt subs silent service_ref [] of
        Inl e \<Rightarrow>
          if e = MalformedEndpoint then format_region_ref fmt subs silent rest region_catalog
          else Inl e
      | Inr service_data \<Rightarrow>
          format_region_ref fmt subs silent rest (AList.update service service_data region_catalog))"

type_synonym v2_catalog = "(string, (string, (string, string) dict) dict) dict"

fun format_regions ::
  "formatter \<Rightarrow> substitutions \<Rightarrow> string list \<Rightarrow> templates \<Rightarrow> v2_catalog \<Rightarrow> exn + v2_catalog" where
  "format_regions fmt subs silent [] catalog = Inr catalog"
| "format_regions fmt subs silent ((region, region_ref) # rest) catalog =
     (case format_region_ref fmt subs silent region_ref [] of
        Inl e \<Rightarrow> Inl e
      | Inr region_catalog \<Rightarrow>
          format_regions fmt subs silent rest (AList.update region region_catalog catalog))"

definition get_catalog ::
  "formatter \<Rightarrow> config \<Rightarrow> templates \<Rightarrow> string \<Rightarrow> string option \<Rightarrow> exn + v2_catalog" where
  "get_catalog fmt conf templates user_id tenant_id =
     format_regions fmt (v2_substitutions conf user_id tenant_id)
       (v2_silent_keyerror_failures tenant_id) templates []"

text \<open>
  The dictionaries of a parsed template have distinct keys at each of the three levels.
\<close>

definition wf_templates :: "templates \<Rightarrow> bool" where
  "wf_templates t =
     (distinct (map fst t) \<and>
      (\<forall>(r, rref) \<in> set t. distinct (map fst rref) \<and>
         (\<forall>(s, sref) \<in> set rref. distinct (map fst sref))))"

text \<open>
  The formatter raises nothing but \<^verbatim>\<open>MalformedEndpoint\<close> on a template value, for the given
  substitutions and tolerated keys.
\<close>

definition only_malformed :: "formatter \<Rightarrow> substitutions \<Rightarrow> string list \<Rightarrow> bool" where
  "only_malformed fmt subs silent = (\<forall>v e. fmt (Str v) subs (Some silent) = Inl e \<longrightarrow> e = MalformedEndpoint)"

text \<open>What the attribute loop stores for a template value: the formatted value when it is not empty.\<close>

definition attribute_value :: "formatter \<Rightarrow> substitutions \<Rightarrow> string list \<Rightarrow> string \<Rightarrow> string option" where
  "attribute_value fmt subs silent v =
     (case fmt (Str v) subs (Some silent) of
        Inr (Some s) \<Rightarrow> if s \<noteq> [] then Some s else None
      | _ \<Rightarrow> None)"


subsection \<open>The flattened endpoint and service listings\<close>

type_synonym endpoint = "(string, pyval) dict"
type_synonym service = "(string, pyval) dict"

definition service_properties :: "string list" where
  "service_properties = [''id'', ''enabled'', ''type'', ''name'', ''description'']"

definition endpoint_properties :: "string list" where
  "endpoint_properties = [''id'', ''enabled'', ''interface'', ''region'', ''service_id'', ''url'']"

definition extract_interface_from_string :: "string \<Rightarrow> string option" where
  "extract_interface_from_string line =
     (if str_contains ''URL'' line then Some (hd (str_split ''URL'' line)) else None)"

text \<open>
  The first loop over the attributes of a service in \<^verbatim>\<open>list_endpoints\<close>: endpoint
  properties go into the record, keys with an interface into \<^verbatim>\<open>interfaces\<close>.
\<close>

fun collect_interfaces ::
  "service_ref \<Rightarrow> endpoint \<Rightarrow> (string, string) dict \<Rightarrow> endpoint \<times> (string, string) dict" where
  "collect_interfaces [] d interfaces = (d, interfaces)"
| "collect_interfaces ((k, v) # rest) d interfaces =
     (if k \<in> set endpoint_properties
      then collect_interfaces rest (AList.update k (Str v) d) interfaces
      else case extract_interface_from_string k of
             None \<Rightarrow> collect_interfaces rest d interfaces
           | Some interface \<Rightarrow> collect_interfaces rest d (AList.update k v interfaces))"

text \<open>
  The second loop, over \<^verbatim>\<open>interfaces\<close>: one copy of the record per interface. The
  parameter \<open>uuid5\<close> stands for \<^verbatim>\<open>uuid.uuid5(uuid.NAMESPACE_DNS, name).hex\<close>.
\<close>

fun emit_endpoints ::
  "(string \<Rightarrow> string) \<Rightarrow> string \<Rightarrow> string \<Rightarrow> service_ref \<Rightarrow> (string, string) dict \<Rightarrow> endpoint
   \<Rightarrow> endpoint list \<Rightarrow> exn + endpoint list" where
  "emit_endpoints uuid5 region service service_ref [] d endpoint_list = Inr endpoint_list"
| "emit_endpoints uuid5 region service service_ref ((k, v) # rest) d endpoint_list =
     (case getitem service_ref ''name'' of
        Inl e \<Rightarrow> Inl e
      | Inr name \<Rightarrow>
          (case extract_interface_from_string k of
             None \<Rightarrow> Inl TypeError
           | Some interface \<Rightarrow>
               let endpoint_id = uuid5 (region @ service @ name @ interface);
                   d = AList.update ''id'' (Str endpoint_id) d;
                   d = AList.update ''legacy_endpoint_id'' (Str endpoint_id) d;
                   d = AList.update ''interface'' (Str interface) d;
                   d = AList.update ''url'' (Str v) d
               in emit_endpoints uuid5 region service service_ref rest d (endpoint_list @ [d])))"

definition service_endpoints ::
  "(string \<Rightarrow> string) \<Rightarrow> string \<Rightarrow> string \<Rightarrow> service_ref \<Rightarrow> endpoint list \<Rightarrow> exn + endpoint list" where
  "service_endpoints uuid5 region service service_ref endpoint_list =
     (let d = [(''id'', Str []), (''region'', Str region), (''region_id'', Str region),
               (''enabled'', Bool True), (''legacy_endpoint_id'', Str []),
               (''service_id'', Str (uuid5 service))]
      in case collect_interfaces service_ref d [] of
           (d, interfaces) \<Rightarrow>
             emit_endpoints uuid5 region service service_ref interfaces d endpoint_list)"

fun region_endpoints ::
  "(string \<Rightarrow> string) \<Rightarrow> string \<Rightarrow> region_ref \<Rightarrow> endpoint list \<Rightarrow> exn + endpoint list" where
  "region_endpoints uuid5 region [] endpoint_list = Inr endpoint_list"
| "region_endpoints uuid5 region ((service, service_ref) # rest) endpoint_list =
     (case service_endpoints uuid5 region service service_ref endpoint_list of
        Inl e \<Rightarrow> Inl e
      | Inr endpoint_list \<Rightarrow> region_endpoints uuid5 region rest endpoint_list)"

fun templates_endpoints ::
  "(string \<Rightarrow> string) \<Rightarrow> templates \<Rightarrow> endpoint list \<Rightarrow> exn + endpoint list" where
  "templates_endpoints uuid5 [] endpoint_list = Inr endpoint_list"
| "templates_endpoints uuid5 ((region, region_ref) # rest) endpoint_list =
     (case region_endpoints uuid5 region region_ref endpoint_list of
        Inl e \<Rightarrow> Inl e
      | Inr endpoint_list \<Rightarrow> templates_endpoints uuid5 rest endpoint_list)"

definition list_endpoints :: "(string \<Rightarrow> string) \<Rightarrow> templates \<Rightarrow> exn + endpoint list" where
  "list_endpoints uuid5 templates = templates_endpoints uuid5 templates []"

text \<open>\<^verbatim>\<open>list_services\<close>: the record of one service, then the two loops that fill \<^verbatim>\<open>service_dict\<close>.\<close>

fun service_fields :: "service_ref \<Rightarrow> service \<Rightarrow> service" where
  "service_fields [] d = d"
| "service_fields ((k, v) # rest) d =
     (if k \<in> set service_properties then service_fields rest (AList.update k (Str v) d)
      else service_fields rest d)"

definition service_record :: "(string \<Rightarrow> string) \<Rightarrow> string \<Rightarrow> service_ref \<Rightarrow> service" where
  "service_record uuid5 service service_ref =
     service_fields service_ref
       [(''id'', Str (uuid5 service)), (''type'', Str service), (''enabled'', Bool True),
        (''description'', Str [])]"

fun region_services ::
  "(string \<Rightarrow> string) \<Rightarrow> region_ref \<Rightarrow> (string, service) dict \<Rightarrow> (string, service) dict" where
  "region_services uuid5 [] service_dict = service_dict"
| "region_services uuid5 ((service, service_ref) # rest) service_dict =
     region_services uuid5 rest
       (AList.update service (service_record uuid5 service service_ref) service_dict)"

fun templates_services ::
  "(string \<Rightarrow> string) \<Rightarrow> templates \<Rightarrow> (string, service) dict \<Rightarrow> (string, service) dict" where
  "templates_services uuid5 [] service_dict = service_dict"
| "templates_services uuid5 ((region, region_ref) # rest) service_dict =
     templates_services uuid5 rest (region_services uuid5 region_ref service_dict)"

definition list_services :: "(string \<Rightarrow> string) \<Rightarrow> templates \<Rightarrow> service list" where
  "list_services uuid5 templates = map snd (templates_services uuid5 templates [])"

text \<open>
  The scan of \<^verbatim>\<open>get_endpoint\<close> and \<^verbatim>\<open>get_service\<close>: the first record whose \<^verbatim>\<open>'id'\<close> equals
  the given one.
\<close>

fun find_by_id :: "(string, pyval) dict list \<Rightarrow> pyval \<Rightarrow> exn + (string, pyval) dict option" where
  "find_by_id [] ident = Inr None"
| "find_by_id (r # rs) ident =
     (case getitem r ''id'' of
        Inl e \<Rightarrow> Inl e
      | Inr i \<Rightarrow> if i = ident then Inr (Some r) else find_by_id rs ident)"

definition get_endpoint :: "(string \<Rightarrow> string) \<Rightarrow> templates \<Rightarrow> pyval \<Rightarrow> exn + endpoint" where
  "get_endpoint uuid5 templates endpoint_id =
     (case list_endpoints uuid5 templates of
        Inl e \<Rightarrow> Inl e
      | Inr endpoint_list \<Rightarrow>
          (case find_by_id endpoint_list endpoint_id of
             Inl e \<Rightarrow> Inl e
           | Inr None \<Rightarrow> Inl (EndpointNotFound endpoint_id)
           | Inr (Some endpoint) \<Rightarrow> Inr endpoint))"

definition get_service :: "(string \<Rightarrow> string) \<Rightarrow> templates \<Rightarrow> pyval \<Rightarrow> exn + service" where
  "get_service uuid5 templates service_id =
     (case find_by_id (list_services uuid5 templates) service_id of
        Inl e \<Rightarrow> Inl e
      | Inr None \<Rightarrow> Inl (ServiceNotFound service_id)
      | Inr (Some service) \<Rightarrow> Inr service)"

section \<open>The endpoint filter extension\<close>

subsection \<open>The backing store\<close>

text \<open>
  The records of the endpoint filter driver: a direct association of an endpoint with a
  project, an endpoint group with its filters, and the membership of a project in a group.
\<close>

record project_endpoint =
  ref_endpoint_id :: string
  ref_project_id :: string

record endpoint_group =
  group_id :: string
  group_filters :: "(string, pyval) dict"

record project_endpoint_group =
  membership_endpoint_group_id :: string
  membership_project_id :: string

text \<open>
  The state that \<^verbatim>\<open>Manager\<close> works on: the tables of the driver, the projects known to
  \<^verbatim>\<open>resource_api\<close>, what \<^verbatim>\<open>catalog_api.list_endpoints()\<close> returns, and the log of the calls
  of \<^verbatim>\<open>remove_endpoint_from_project\<close>.
\<close>

record store =
  project_endpoints :: "project_endpoint list"
  endpoint_groups :: "endpoint_group list"
  project_endpoint_groups :: "project_endpoint_group list"
  projects :: "string list"
  catalog_endpoints :: "exn + endpoint list"
  removal_calls :: "(pyval \<times> string) list"

text \<open>
  The implementations of the endpoint filter driver and of \<^verbatim>\<open>resource_api\<close> are not
  among the sources; their operations follow the collaborator contracts of the spec
  (section 6).
\<close>

text \<open>
  Modelled from the spec: \<^verbatim>\<open>driver.list_endpoints_for_project\<close>, the direct associations of
  the project; it never fails.
\<close>

definition driver_list_endpoints_for_project :: "store \<Rightarrow> string \<Rightarrow> project_endpoint list" where
  "driver_list_endpoints_for_project st project_id =
     filter (\<lambda>r. ref_project_id r = project_id) (project_endpoints st)"

text \<open>
  Modelled from the spec: \<^verbatim>\<open>remove_endpoint_from_project\<close>, which the manager passes on to
  the driver. It removes the association, it is a no-op when the association is already
  gone, and it never fails; the call is logged in \<open>removal_calls\<close>.
\<close>

definition remove_endpoint_from_project :: "pyval \<Rightarrow> string \<Rightarrow> store \<Rightarrow> store" where
  "remove_endpoint_from_project endpoint_id project_id st =
     st\<lparr>project_endpoints :=
          filter (\<lambda>r. \<not> (Str (ref_endpoint_id r) = endpoint_id \<and> ref_project_id r = project_id))
            (project_endpoints st),
        removal_calls := removal_calls st @ [(endpoint_id, project_id)]\<rparr>"

text \<open>
  Modelled from the spec: \<^verbatim>\<open>driver.get_endpoint_group\<close>, the group with the given id or the
  not-found condition.
\<close>

definition driver_get_endpoint_group :: "store \<Rightarrow> string \<Rightarrow> exn + endpoint_group" where
  "driver_get_endpoint_group st endpoint_group_id =
     (case find (\<lambda>g. group_id g = endpoint_group_id) (endpoint_groups st) of
        None \<Rightarrow> Inl (EndpointGroupNotFound endpoint_group_id)
      | Some g \<Rightarrow> Inr g)"

text \<open>
  Modelled from the spec: \<^verbatim>\<open>driver.list_endpoint_groups_for_project\<close>, the memberships of
  the project; empty when there is none, never "not found".
\<close>

definition driver_list_endpoint_groups_for_project ::
  "store \<Rightarrow> string \<Rightarrow> project_endpoint_group list" where
  "driver_list_endpoint_groups_for_project st project_id =
     filter (\<lambda>m. membership_project_id m = project_id) (project_endpoint_groups st)"

text \<open>
  Modelled from the spec: \<^verbatim>\<open>resource_api.get_project\<close>, of which only the failure for a
  missing project matters here.
\<close>

definition resource_api_get_project :: "store \<Rightarrow> string \<Rightarrow> exn + unit" where
  "resource_api_get_project st project_id =
     (if project_id \<in> set (projects st) then Inr () else Inl (ProjectNotFound project_id))"

text \<open>
  \<^verbatim>\<open>catalog_api.get_endpoint\<close>: the scan of \<^verbatim>\<open>get_endpoint\<close> of the templated catalog, over
  the endpoints that \<^verbatim>\<open>catalog_api.list_endpoints()\<close> returns.
\<close>

definition catalog_api_get_endpoint :: "store \<Rightarrow> pyval \<Rightarrow> exn + endpoint" where
  "catalog_api_get_endpoint st endpoint_id =
     (case catalog_endpoints st of
        Inl e \<Rightarrow> Inl e
      | Inr endpoint_list \<Rightarrow>
          (case find_by_id endpoint_list endpoint_id of
             Inl e \<Rightarrow> Inl e
           | Inr None \<Rightarrow> Inl (EndpointNotFound endpoint_id)
           | Inr (Some endpoint) \<Rightarrow> Inr endpoint))"

subsection \<open>The manager\<close>

text \<open>The list comprehension of \<^verbatim>\<open>_get_endpoint_groups_for_project\<close>.\<close>

fun get_endpoint_groups :: "store \<Rightarrow> project_endpoint_group list \<Rightarrow> exn + endpoint_group list" where
  "get_endpoint_groups st [] = Inr []"
| "get_endpoint_groups st (ref # refs) =
     (case driver_get_endpoint_group st (membership_endpoint_group_id ref) of
        Inl e \<Rightarrow> Inl e
      | Inr g \<Rightarrow>
          (case get_endpoint_groups st refs of
             Inl e \<Rightarrow> Inl e
           | Inr gs \<Rightarrow> Inr (g # gs)))"

definition get_endpoint_groups_for_project :: "store \<Rightarrow> string \<Rightarrow> exn + endpoint_group list" where
  "get_endpoint_groups_for_project st project_id =
     (if project_id = [] then Inr []
      else case resource_api_get_project st project_id of
        Inl e \<Rightarrow> Inl e
      | Inr u \<Rightarrow>
          (case get_endpoint_groups st (driver_list_endpoint_groups_for_project st project_id) of
             Inl e \<Rightarrow> (case e of EndpointGroupNotFound g \<Rightarrow> Inr [] | _ \<Rightarrow> Inl e)
           | Inr groups \<Rightarrow> Inr groups))"

text \<open>
  The inner loop of \<^verbatim>\<open>_get_endpoints_filtered_by_endpoint_group\<close>, over the items of
  \<^verbatim>\<open>filters\<close>: the value of \<^verbatim>\<open>is_candidate\<close> when the loop ends, or the \<^verbatim>\<open>KeyError\<close> of
  \<^verbatim>\<open>endpoint[key]\<close>.
\<close>

fun is_candidate :: "endpoint \<Rightarrow> (string, pyval) dict \<Rightarrow> exn + bool" where
  "is_candidate endpoint [] = Inr True"
| "is_candidate endpoint ((key, val) # rest) =
     (let val = (case val of Lst vs \<Rightarrow> vs | _ \<Rightarrow> [val])
      in case getitem endpoint key of
           Inl e \<Rightarrow> Inl e
         | Inr x \<Rightarrow> if x \<notin> set val then Inr False else is_candidate endpoint rest)"

fun filter_endpoints :: "endpoint list \<Rightarrow> (string, pyval) dict \<Rightarrow> exn + endpoint list" where
  "filter_endpoints [] filters = Inr []"
| "filter_endpoints (endpoint # endpoints) filters =
     (case is_candidate endpoint filters of
        Inl e \<Rightarrow> Inl e
      | Inr c \<Rightarrow>
          (case filter_endpoints endpoints filters of
             Inl e \<Rightarrow> Inl e
           | Inr filtered_endpoints \<Rightarrow>
               Inr (if c then endpoint # filtered_endpoints else filtered_endpoints)))"

definition get_endpoints_filtered_by_endpoint_group :: "store \<Rightarrow> string \<Rightarrow> exn + endpoint list" where
  "get_endpoints_filtered_by_endpoint_group st endpoint_group_id =
     (case catalog_endpoints st of
        Inl e \<Rightarrow> Inl e
      | Inr endpoints \<Rightarrow>
          (case driver_get_endpoint_group st endpoint_group_id of
             Inl e \<Rightarrow> Inl e
           | Inr g \<Rightarrow> filter_endpoints endpoints (group_filters g)))"

text \<open>
  \<^verbatim>\<open>list_endpoints_for_project\<close>. The first loop runs over the direct associations and
  removes those whose endpoint is not found; the store it leaves is returned also when an
  exception ends the operation.
\<close>

type_synonym filtered_endpoints = "(pyval, endpoint) dict"

fun direct_endpoints ::
  "string \<Rightarrow> project_endpoint list \<Rightarrow> filtered_endpoints \<Rightarrow> store
   \<Rightarrow> (exn + filtered_endpoints) \<times> store" where
  "direct_endpoints project_id [] filtered_endpoints st = (Inr filtered_endpoints, st)"
| "direct_endpoints project_id (ref # refs) filtered_endpoints st =
     (case catalog_api_get_endpoint st (Str (ref_endpoint_id ref)) of
        Inr endpoint \<Rightarrow>
          direct_endpoints project_id refs
            (AList.update (Str (ref_endpoint_id ref)) endpoint filtered_endpoints) st
      | Inl e \<Rightarrow>
          (case e of
             EndpointNotFound i \<Rightarrow>
               direct_endpoints project_id refs filtered_endpoints
                 (remove_endpoint_from_project (Str (ref_endpoint_id ref)) project_id st)
           | _ \<Rightarrow> (Inl e, st)))"

text \<open>The loop over the endpoints of one group: an id already present is left as it is.\<close>

fun add_group_endpoints :: "endpoint list \<Rightarrow> filtered_endpoints \<Rightarrow> exn + filtered_endpoints" where
  "add_group_endpoints [] filtered_endpoints = Inr filtered_endpoints"
| "add_group_endpoints (endpoint_ref # rest) filtered_endpoints =
     (case getitem endpoint_ref ''id'' of
        Inl e \<Rightarrow> Inl e
      | Inr i \<Rightarrow>
          if \<not> hashable i then Inl TypeError
          else if map_of filtered_endpoints i = None
          then add_group_endpoints rest (AList.update i endpoint_ref filtered_endpoints)
          else add_group_endpoints rest filtered_endpoints)"

fun group_endpoints ::
  "store \<Rightarrow> endpoint_group list \<Rightarrow> filtered_endpoints \<Rightarrow> exn + filtered_endpoints" where
  "group_endpoints st [] filtered_endpoints = Inr filtered_endpoints"
| "group_endpoints st (endpoint_group # rest) filtered_endpoints =
     (case get_endpoints_filtered_by_endpoint_group st (group_id endpoint_group) of
        Inl e \<Rightarrow> Inl e
      | Inr endpoint_refs \<Rightarrow>
          (case add_group_endpoints endpoint_refs filtered_endpoints of
             Inl e \<Rightarrow> Inl e
           | Inr filtered_endpoints \<Rightarrow> group_endpoints st rest filtered_endpoints))"

definition list_endpoints_for_project :: "string \<Rightarrow> store \<Rightarrow> (exn + filtered_endpoints) \<times> store" where
  "list_endpoints_for_project project_id st =
     (case direct_endpoints project_id (driver_list_endpoints_for_project st project_id) [] st of
        (Inl e, st') \<Rightarrow> (Inl e, st')
      | (Inr filtered_endpoints, st') \<Rightarrow>
          (case get_endpoint_groups_for_project st' project_id of
             Inl e \<Rightarrow> (Inl e, st')
           | Inr groups \<Rightarrow> (group_endpoints st' groups filtered_endpoints, st')))"

subsection \<open>The project-scoped v3 catalog\<close>

definition v3_substitutions :: "config \<Rightarrow> string \<Rightarrow> string \<Rightarrow> substitutions" where
  "v3_substitutions conf user_id project_id =
     AList.update ''user_id'' user_id
       (AList.update ''tenant_id'' project_id (dict_of (conf_items conf)))"

type_synonym services = "(pyval, service) dict"

fun delitems :: "endpoint \<Rightarrow> string list \<Rightarrow> exn + endpoint" where
  "delitems d [] = Inr d"
| "delitems d (k # ks) = (case delitem d k of Inl e \<Rightarrow> Inl e | Inr d' \<Rightarrow> delitems d' ks)"

text \<open>
  The body of the \<^verbatim>\<open>try\<close> in the loop of \<^verbatim>\<open>get_v3_catalog\<close>, for one endpoint: the result and
  \<^verbatim>\<open>services\<close> as the body leaves it, which is with the service entered by \<^verbatim>\<open>setdefault\<close>
  when an exception comes later.
\<close>

definition add_endpoint_to_services ::
  "formatter \<Rightarrow> (string \<Rightarrow> string) \<Rightarrow> templates \<Rightarrow> substitutions \<Rightarrow> endpoint \<Rightarrow> services
   \<Rightarrow> (exn + unit) \<times> services" where
  "add_endpoint_to_services fmt uuid5 templates subs endpoint services =
     (case getitem endpoint ''enabled'' of
        Inl e \<Rightarrow> (Inl e, services)
      | Inr enabled \<Rightarrow>
          if \<not> truthy enabled then (Inr (), services)
          else
            (case getitem endpoint ''service_id'' of
               Inl e \<Rightarrow> (Inl e, services)
             | Inr service_id \<Rightarrow>
                 (case get_service uuid5 templates service_id of
                    Inl e \<Rightarrow> (Inl e, services)
                  | Inr found \<Rightarrow>
                      if \<not> hashable service_id then (Inl TypeError, services)
                      else
                        let service = (case map_of services service_id of
                                         None \<Rightarrow> found | Some s \<Rightarrow> s);
                            services = AList.update service_id service services
                        in
                        (case delitems endpoint
                                [''service_id'', ''enabled'', ''legacy_endpoint_id'',
                                 ''region_id'', ''id''] of
                           Inl e \<Rightarrow> (Inl e, services)
                         | Inr endpoint \<Rightarrow>
                             (case getitem endpoint ''url'' of
                                Inl e \<Rightarrow> (Inl e, services)
                              | Inr url \<Rightarrow>
                                  (case fmt url subs None of
                                     Inl e \<Rightarrow> (Inl e, services)
                                   | Inr formatted \<Rightarrow>
                                       let endpoint =
                                             AList.update ''url''
                                               (case formatted of
                                                  None \<Rightarrow> PyNone | Some s \<Rightarrow> Str s)
                                               endpoint
                                       in
                                       (case map_of service ''endpoints'' of
                                          None \<Rightarrow>
                                            (Inr (),
                                             AList.update service_id
                                               (AList.update ''endpoints''
                                                  (Lst [Dct endpoint]) service)
                                               services)
                                        | Some (Lst es) \<Rightarrow>
                                            (Inr (),
                                             AList.update service_id
                                               (AList.update ''endpoints''
                                                  (Lst (es @ [Dct endpoint])) service)
                                               services)
                                        | Some other \<Rightarrow> (Inl AttributeError, services))))))))"

text \<open>The loop itself: \<^verbatim>\<open>EndpointNotFound\<close> is caught and the association removed.\<close>

fun v3_endpoints ::
  "formatter \<Rightarrow> (string \<Rightarrow> string) \<Rightarrow> templates \<Rightarrow> substitutions \<Rightarrow> string
   \<Rightarrow> (pyval \<times> endpoint) list \<Rightarrow> services \<Rightarrow> store \<Rightarrow> (exn + services) \<times> store" where
  "v3_endpoints fmt uuid5 templates subs project_id [] services st = (Inr services, st)"
| "v3_endpoints fmt uuid5 templates subs project_id ((endpoint_id, endpoint) # rest) services st =
     (case add_endpoint_to_services fmt uuid5 templates subs endpoint services of
        (Inr u, services) \<Rightarrow> v3_endpoints fmt uuid5 templates subs project_id rest services st
      | (Inl e, services) \<Rightarrow>
          (case e of
             EndpointNotFound i \<Rightarrow>
               v3_endpoints fmt uuid5 templates subs project_id rest services
                 (remove_endpoint_from_project endpoint_id project_id st)
           | _ \<Rightarrow> (Inl e, st)))"

text \<open>The final loop, which formats the services that were collected.\<close>

fun format_v3_catalog :: "(pyval \<times> service) list \<Rightarrow> exn + service list" where
  "format_v3_catalog [] = Inr []"
| "format_v3_catalog ((service_id, service) # rest) =
     (case getitem service ''type'' of Inl e \<Rightarrow> Inl e | Inr t \<Rightarrow>
      case getitem service ''name'' of Inl e \<Rightarrow> Inl e | Inr n \<Rightarrow>
      case getitem service ''description'' of Inl e \<Rightarrow> Inl e | Inr d \<Rightarrow>
      case getitem service ''endpoints'' of Inl e \<Rightarrow> Inl e | Inr es \<Rightarrow>
      case format_v3_catalog rest of Inl e \<Rightarrow> Inl e | Inr catalog \<Rightarrow>
        Inr ([(''type'', t), (''name'', n), (''description'', d), (''endpoints'', es)] # catalog))"

text \<open>
  \<^verbatim>\<open>EndpointFilterCatalog.get_v3_catalog\<close>. The parameter \<open>super_get_v3_catalog\<close> is the
  method of the base class, which is not among the sources.
\<close>

definition get_v3_catalog ::
  "formatter \<Rightarrow> (string \<Rightarrow> string) \<Rightarrow> (string \<Rightarrow> string \<Rightarrow> exn + service list) \<Rightarrow> config
   \<Rightarrow> templates \<Rightarrow> string \<Rightarrow> string \<Rightarrow> store \<Rightarrow> (exn + service list) \<times> store" where
  "get_v3_catalog fmt uuid5 super_get_v3_catalog conf templates user_id project_id st =
     (let substitutions = v3_substitutions conf user_id project_id
      in case list_endpoints_for_project project_id st of
           (Inl e, st') \<Rightarrow> (Inl e, st')
         | (Inr dict_of_endpoint_refs, st') \<Rightarrow>
             if dict_of_endpoint_refs = [] \<and> return_all_endpoints_if_no_filter conf
             then (super_get_v3_catalog user_id project_id, st')
             else
               (case v3_endpoints fmt uuid5 templates substitutions project_id
                       dict_of_endpoint_refs [] st' of
                  (Inl e, st'') \<Rightarrow> (Inl e, st'')
                | (Inr services, st'') \<Rightarrow> (format_v3_catalog services, st'')))"

section \<open>Notions used in the properties\<close>


text \<open>
  The template entries of a service type, in the order in which the loops of
  \<^verbatim>\<open>list_services\<close> reach them: region by region, and within a region entry by entry.
\<close>

definition occurrences :: "region_ref \<Rightarrow> string \<Rightarrow> service_ref list" where
  "occurrences region_ref service = map snd (filter (\<lambda>(s, ref). s = service) region_ref)"

definition service_occurrences :: "templates \<Rightarrow> string \<Rightarrow> service_ref list" where
  "service_occurrences templates service =
     concat (map (\<lambda>(region, region_ref). occurrences region_ref service) templates)"


text \<open>
  The accepted set of a filter value: the elements of a list, and a value that is not a
  list as the one-element set of itself.
\<close>

definition accepted_values :: "pyval \<Rightarrow> pyval list" where
  "accepted_values val = (case val of Lst vs \<Rightarrow> vs | _ \<Rightarrow> [val])"

text \<open>
  What the catalog lookup answers for a direct association: the association is stale
  when the lookup reports that the endpoint is not found, and the lookup answers when it
  returns the endpoint or reports that it is not found.
\<close>

definition is_stale :: "store \<Rightarrow> project_endpoint \<Rightarrow> bool" where
  "is_stale st ref =
     (case catalog_api_get_endpoint st (Str (ref_endpoint_id ref)) of
        Inl (EndpointNotFound i) \<Rightarrow> True
      | _ \<Rightarrow> False)"

definition lookup_answers :: "store \<Rightarrow> project_endpoint \<Rightarrow> bool" where
  "lookup_answers st ref =
     (case catalog_api_get_endpoint st (Str (ref_endpoint_id ref)) of
        Inr endpoint \<Rightarrow> True
      | Inl (EndpointNotFound i) \<Rightarrow> True
      | _ \<Rightarrow> False)"

text \<open>
  A small store: the catalog has the endpoints \<^verbatim>\<open>X\<close> and \<^verbatim>\<open>Y\<close> of region \<^verbatim>\<open>R1\<close>; project
  \<^verbatim>\<open>p\<close> is associated with \<^verbatim>\<open>X\<close> and with \<^verbatim>\<open>Z\<close>, which the catalog does not have, and is a
  member of a group whose filter accepts the regions \<^verbatim>\<open>R1\<close> and \<^verbatim>\<open>R2\<close>; project \<^verbatim>\<open>q\<close> has
  no association.
\<close>

definition endpoint_X :: endpoint where
  "endpoint_X =
     [(''id'', Str ''X''), (''interface'', Str ''public''), (''region_id'', Str ''R1'')]"

definition endpoint_Y :: endpoint where
  "endpoint_Y =
     [(''id'', Str ''Y''), (''interface'', Str ''admin''), (''region_id'', Str ''R1'')]"

definition example_store :: store where
  "example_store =
     \<lparr>project_endpoints =
        [\<lparr>ref_endpoint_id = ''X'', ref_project_id = ''p''\<rparr>,
         \<lparr>ref_endpoint_id = ''Z'', ref_project_id = ''p''\<rparr>],
      endpoint_groups =
        [\<lparr>group_id = ''g'', group_filters = [(''region_id'', Lst [Str ''R1'', Str ''R2''])]\<rparr>],
      project_endpoint_groups =
        [\<lparr>membership_endpoint_group_id = ''g'', membership_project_id = ''p''\<rparr>],
      projects = [''p'', ''q''],
      catalog_endpoints = Inr [endpoint_X, endpoint_Y],
      removal_calls = []\<rparr>"

section \<open>Lemmas about the model\<close>
subsection \<open>The endpoint listing and its only error\<close>

lemma str_split_from_not_Nil: "str_split_from sep cur s \<noteq> []"
  by (induction sep cur s rule: str_split_from.induct) auto

lemma URL_not_endpoint_property: "str_contains ''URL'' k \<Longrightarrow> k \<notin> set endpoint_properties"
  by (auto simp: endpoint_properties_def)

lemma extract_interface_Some:
  "str_contains ''URL'' k \<Longrightarrow> \<exists>i. extract_interface_from_string k = Some i"
  by (simp add: extract_interface_from_string_def)

lemma extract_interface_SomeD:
  "extract_interface_from_string k = Some i \<Longrightarrow> str_contains ''URL'' k"
  by (simp add: extract_interface_from_string_def split: if_splits)

lemma set_update_subset: "set (AList.update k v al) \<subseteq> insert (k, v) (set al)"
  by (induction al) auto

lemma collect_interfaces_keep:
  "interfaces \<noteq> [] \<Longrightarrow> snd (collect_interfaces sref d interfaces) \<noteq> []"
  by (induction sref d interfaces rule: collect_interfaces.induct) (auto split: option.splits)

lemma collect_interfaces_URL:
  "(k, v) \<in> set sref \<Longrightarrow> str_contains ''URL'' k \<Longrightarrow>
   snd (collect_interfaces sref d interfaces) \<noteq> []"
proof (induction sref d interfaces rule: collect_interfaces.induct)
  case (1 d interfaces)
  then show ?case by simp
next
  case (2 k' v' rest d interfaces)
  show ?case
  proof (cases "(k, v) = (k', v')")
    case True
    with "2.prems" have "k' \<notin> set endpoint_properties"
      and "\<exists>i. extract_interface_from_string k' = Some i"
      by (auto dest: URL_not_endpoint_property extract_interface_Some)
    then show ?thesis by (auto simp: collect_interfaces_keep)
  next
    case False
    with "2.prems" have "(k, v) \<in> set rest" by auto
    with "2.IH" "2.prems"(2) show ?thesis by (auto split: option.splits)
  qed
qed

lemma collect_interfaces_subset:
  "set (snd (collect_interfaces sref d interfaces)) \<subseteq>
     set interfaces \<union> {(k, v). (k, v) \<in> set sref \<and> str_contains ''URL'' k}"
proof (induction sref d interfaces rule: collect_interfaces.induct)
  case (1 d interfaces)
  then show ?case by simp
next
  case (2 k v rest d interfaces)
  show ?case
  proof (cases "k \<in> set endpoint_properties")
    case True
    with "2.IH"(1) show ?thesis by auto
  next
    case False
    show ?thesis
    proof (cases "extract_interface_from_string k")
      case None
      with False "2.IH"(2) show ?thesis by auto
    next
      case (Some i)
      then have "str_contains ''URL'' k" by (rule extract_interface_SomeD)
      with False Some "2.IH"(3) [OF False Some] set_update_subset [of k v interfaces]
      show ?thesis by auto
    qed
  qed
qed

lemma emit_endpoints_no_name:
  "map_of sref ''name'' = None \<Longrightarrow> interfaces \<noteq> [] \<Longrightarrow>
   emit_endpoints uuid5 region service sref interfaces d acc = Inl (KeyError ''name'')"
  by (cases interfaces) (auto simp: getitem_def)

lemma emit_endpoints_error:
  "\<forall>(k, v) \<in> set interfaces. str_contains ''URL'' k \<Longrightarrow>
   emit_endpoints uuid5 region service sref interfaces d acc = Inl e \<Longrightarrow>
   e = KeyError ''name''"
proof (induction interfaces arbitrary: d acc)
  case Nil
  then show ?case by simp
next
  case (Cons p interfaces)
  obtain k v where p: "p = (k, v)" by (cases p)
  with Cons.prems(1) obtain i where i: "extract_interface_from_string k = Some i"
    using extract_interface_Some by auto
  show ?case
  proof (cases "map_of sref ''name''")
    case None
    with Cons.prems(2) p show ?thesis by (simp add: getitem_def)
  next
    case (Some name)
    from Cons.prems(1) have "\<forall>(k, v) \<in> set interfaces. str_contains ''URL'' k" by simp
    with Cons.IH Cons.prems(2) p i Some show ?thesis
      by (simp add: getitem_def Let_def)
  qed
qed

lemma collected_interfaces_URL:
  "collect_interfaces sref d [] = (d', interfaces) \<Longrightarrow>
   \<forall>(k, v) \<in> set interfaces. str_contains ''URL'' k"
  using collect_interfaces_subset [of sref d "[]"] by auto

lemma service_endpoints_error:
  "service_endpoints uuid5 region service sref acc = Inl e \<Longrightarrow> e = KeyError ''name''"
  unfolding service_endpoints_def Let_def
  by (auto split: prod.splits dest: collected_interfaces_URL emit_endpoints_error)

lemma service_endpoints_no_name:
  assumes "(k, v) \<in> set sref" and "str_contains ''URL'' k" and "map_of sref ''name'' = None"
  shows "service_endpoints uuid5 region service sref acc = Inl (KeyError ''name'')"
proof -
  let ?d = "[(''id'', Str []), (''region'', Str region), (''region_id'', Str region),
             (''enabled'', Bool True), (''legacy_endpoint_id'', Str []),
             (''service_id'', Str (uuid5 service))]"
  obtain d' interfaces where c: "collect_interfaces sref ?d [] = (d', interfaces)"
    by (cases "collect_interfaces sref ?d []")
  from collect_interfaces_URL [OF assms(1,2), of ?d "[]"] c have "interfaces \<noteq> []" by simp
  with assms(3) c show ?thesis
    by (simp add: service_endpoints_def emit_endpoints_no_name)
qed

lemma region_endpoints_error:
  "region_endpoints uuid5 region rref acc = Inl e \<Longrightarrow> e = KeyError ''name''"
proof (induction rref arbitrary: acc)
  case Nil
  then show ?case by simp
next
  case (Cons p rref)
  obtain s sref where p: "p = (s, sref)" by (cases p)
  with Cons show ?case
    by (auto split: sum.splits dest: service_endpoints_error)
qed

lemma region_endpoints_no_name:
  assumes "(service, sref) \<in> set rref" and "(k, v) \<in> set sref"
    and "str_contains ''URL'' k" and "map_of sref ''name'' = None"
  shows "region_endpoints uuid5 region rref acc = Inl (KeyError ''name'')"
  using assms(1)
proof (induction rref arbitrary: acc)
  case Nil
  then show ?case by simp
next
  case (Cons p rref)
  obtain s0 sref0 where p: "p = (s0, sref0)" by (cases p)
  show ?case
  proof (cases "service_endpoints uuid5 region s0 sref0 acc")
    case (Inl e)
    then have "e = KeyError ''name''" by (rule service_endpoints_error)
    with Inl p show ?thesis by simp
  next
    case (Inr acc')
    have "(s0, sref0) \<noteq> (service, sref)"
    proof
      assume "(s0, sref0) = (service, sref)"
      with service_endpoints_no_name [OF assms(2,3,4), of uuid5 region service acc] Inr
      show False by simp
    qed
    with Cons.prems p have "(service, sref) \<in> set rref" by auto
    with Cons.IH Inr p show ?thesis by simp
  qed
qed

lemma templates_endpoints_no_name:
  assumes "(region, rref) \<in> set templates" and "(service, sref) \<in> set rref"
    and "(k, v) \<in> set sref" and "str_contains ''URL'' k" and "map_of sref ''name'' = None"
  shows "templates_endpoints uuid5 templates acc = Inl (KeyError ''name'')"
  using assms(1)
proof (induction templates arbitrary: acc)
  case Nil
  then show ?case by simp
next
  case (Cons p templates)
  obtain r0 rref0 where p: "p = (r0, rref0)" by (cases p)
  show ?case
  proof (cases "region_endpoints uuid5 r0 rref0 acc")
    case (Inl e)
    then have "e = KeyError ''name''" by (rule region_endpoints_error)
    with Inl p show ?thesis by simp
  next
    case (Inr acc')
    have "(r0, rref0) \<noteq> (region, rref)"
    proof
      assume "(r0, rref0) = (region, rref)"
      with region_endpoints_no_name [OF assms(2,3,4,5), of uuid5 region acc] Inr
      show False by simp
    qed
    with Cons.prems p have "(region, rref) \<in> set templates" by auto
    with Cons.IH Inr p show ?thesis by simp
  qed
qed


subsection \<open>The service listing\<close>





lemma region_services_distinct:
  "distinct (map fst sd) \<Longrightarrow> distinct (map fst (region_services uuid5 rref sd))"
  by (induction rref arbitrary: sd) (auto simp: distinct_update)

lemma templates_services_distinct:
  "distinct (map fst sd) \<Longrightarrow> distinct (map fst (templates_services uuid5 tpl sd))"
  by (induction tpl arbitrary: sd) (auto simp: region_services_distinct)

lemma region_services_map_of:
  "map_of (region_services uuid5 rref sd) s =
     (if occurrences rref s = [] then map_of sd s
      else Some (service_record uuid5 s (last (occurrences rref s))))"
proof (induction rref arbitrary: sd)
  case Nil
  then show ?case by (simp add: occurrences_def)
next
  case (Cons p rref)
  obtain s0 sref0 where p: "p = (s0, sref0)" by (cases p)
  from Cons.IH [of "AList.update s0 (service_record uuid5 s0 sref0) sd"] p
  show ?case by (auto simp: occurrences_def update_conv')
qed

lemma templates_services_map_of:
  "map_of (templates_services uuid5 tpl sd) s =
     (if service_occurrences tpl s = [] then map_of sd s
      else Some (service_record uuid5 s (last (service_occurrences tpl s))))"
proof (induction tpl arbitrary: sd)
  case Nil
  then show ?case by (simp add: service_occurrences_def)
next
  case (Cons p tpl)
  obtain r0 rref0 where p: "p = (r0, rref0)" by (cases p)
  have so: "service_occurrences ((r0, rref0) # tpl) s =
              occurrences rref0 s @ service_occurrences tpl s"
    by (simp add: service_occurrences_def)
  from Cons.IH [of "region_services uuid5 rref0 sd"]
  show ?case unfolding p by (simp add: so region_services_map_of)
qed


subsection \<open>Where the emitted endpoints come from\<close>





subsection \<open>Template parsing\<close>








text \<open>What \<^verbatim>\<open>parse_templates\<close> returns has distinct keys at each level.\<close>

lemma dict_get_cases:
  "dict_get d k [] = [] \<or> (k, dict_get d k []) \<in> set d"
  by (auto simp: dict_get_def split: option.splits dest: map_of_SomeD)

lemma parse_line_wf:
  assumes "wf_templates out" and "parse_line out line = Inr out'"
  shows "wf_templates out'"
proof (cases "out' = out")
  case True
  with assms(1) show ?thesis by simp
next
  case False
  with assms(2) obtain region service key v where
    out': "out' = AList.update region
             (AList.update service
                (AList.update key v (dict_get (dict_get out region []) service []))
                (dict_get out region []))
             out"
    unfolding parse_line_def Let_def
    by (auto split: if_splits list.splits sum.splits)
  let ?rref = "dict_get out region []"
  let ?sref = "dict_get ?rref service []"
  let ?sref' = "AList.update key v ?sref"
  let ?rref' = "AList.update service ?sref' ?rref"
  from assms(1) have d0: "distinct (map fst out)"
    and d1: "\<And>r rref. (r, rref) \<in> set out \<Longrightarrow> distinct (map fst rref)"
    and d2: "\<And>r rref s sref. (r, rref) \<in> set out \<Longrightarrow> (s, sref) \<in> set rref \<Longrightarrow>
               distinct (map fst sref)"
    unfolding wf_templates_def by fast+
  have r1: "distinct (map fst ?rref)"
    using dict_get_cases [of out region] d1 by auto
  have r2: "distinct (map fst sref)" if "(s, sref) \<in> set ?rref" for s sref
    using dict_get_cases [of out region] d2 that by auto
  have s1: "distinct (map fst ?sref)"
    using dict_get_cases [of ?rref service] r2 by auto
  have s1': "distinct (map fst ?sref')" using s1 by (rule distinct_update)
  have r1': "distinct (map fst ?rref')" using r1 by (rule distinct_update)
  have r2': "distinct (map fst sref)" if "(s, sref) \<in> set ?rref'" for s sref
    using set_update_subset [of service ?sref' ?rref] that r2 s1' by auto
  have "distinct (map fst out')" unfolding out' using d0 by (rule distinct_update)
  moreover have "distinct (map fst rref)" if "(r, rref) \<in> set out'" for r rref
    using set_update_subset [of region ?rref' out] that d1 r1' unfolding out' by auto
  moreover have "distinct (map fst sref)"
    if "(r, rref) \<in> set out'" and "(s, sref) \<in> set rref" for r rref s sref
    using set_update_subset [of region ?rref' out] that d2 r2' unfolding out' by blast
  ultimately show ?thesis unfolding wf_templates_def by fast
qed

lemma parse_lines_wf:
  "wf_templates out \<Longrightarrow> parse_lines out ls = Inr out' \<Longrightarrow> wf_templates out'"
proof (induction ls arbitrary: out)
  case Nil
  then show ?case by simp
next
  case (Cons l ls)
  from Cons.prems(2) obtain out1 where 1: "parse_line out l = Inr out1"
    and 2: "parse_lines out1 ls = Inr out'"
    by (auto split: sum.splits)
  from Cons.prems(1) 1 have "wf_templates out1" by (rule parse_line_wf)
  from Cons.IH [OF this 2] show ?case .
qed

lemma parse_templates_wf:
  "parse_templates template_lines = Inr templates \<Longrightarrow> wf_templates templates"
  unfolding parse_templates_def
  by (rule parse_lines_wf [of "[]"]) (simp_all add: wf_templates_def)

subsection \<open>Matching an endpoint against the filters of a group\<close>

lemma is_candidate_Cons:
  "is_candidate endpoint ((key, val) # rest) =
     (case map_of endpoint key of
        None \<Rightarrow> Inl (KeyError key)
      | Some x \<Rightarrow> if x \<in> set (accepted_values val) then is_candidate endpoint rest else Inr False)"
  by (simp add: accepted_values_def getitem_def Let_def split: option.splits)

lemma is_candidate_True_iff:
  "is_candidate endpoint filters = Inr True \<longleftrightarrow>
     (\<forall>(key, val) \<in> set filters.
        \<exists>x. map_of endpoint key = Some x \<and> x \<in> set (accepted_values val))"
proof (induction filters)
  case Nil
  then show ?case by simp
next
  case (Cons p filters)
  obtain key val where p: "p = (key, val)" by (cases p)
  show ?case unfolding p using Cons.IH
    by (auto simp: is_candidate_Cons simp del: is_candidate.simps split: option.splits)
qed

lemma is_candidate_returns:
  "\<forall>(key, val) \<in> set filters. map_of endpoint key \<noteq> None \<Longrightarrow>
   \<exists>b. is_candidate endpoint filters = Inr b"
proof (induction filters)
  case Nil
  have "is_candidate endpoint [] = Inr True" by simp
  then show ?case by (rule exI)
next
  case (Cons p filters)
  obtain key val where p: "p = (key, val)" by (cases p)
  from Cons.prems p obtain x where x: "map_of endpoint key = Some x" by auto
  from Cons.prems have "\<forall>(key, val) \<in> set filters. map_of endpoint key \<noteq> None" by simp
  from Cons.IH [OF this] obtain b where b: "is_candidate endpoint filters = Inr b" by blast
  show ?case
  proof (cases "x \<in> set (accepted_values val)")
    case True
    with x b have "is_candidate endpoint ((key, val) # filters) = Inr b"
      by (simp add: is_candidate_Cons del: is_candidate.simps)
    then show ?thesis unfolding p by (rule exI)
  next
    case False
    with x have "is_candidate endpoint ((key, val) # filters) = Inr False"
      by (simp add: is_candidate_Cons del: is_candidate.simps)
    then show ?thesis unfolding p by (rule exI)
  qed
qed

lemma is_candidate_append:
  "is_candidate endpoint (pre @ rest) =
     (case is_candidate endpoint pre of
        Inr True \<Rightarrow> is_candidate endpoint rest
      | other \<Rightarrow> other)"
proof (induction pre)
  case Nil
  then show ?case by simp
next
  case (Cons p pre)
  obtain key val where p: "p = (key, val)" by (cases p)
  show ?case unfolding p using Cons.IH
    by (simp add: is_candidate_Cons del: is_candidate.simps split: option.splits)
qed


subsection \<open>The loop over the direct associations\<close>

lemma remove_endpoint_frame [simp]:
  "catalog_endpoints (remove_endpoint_from_project e p st) = catalog_endpoints st"
  "endpoint_groups (remove_endpoint_from_project e p st) = endpoint_groups st"
  "project_endpoint_groups (remove_endpoint_from_project e p st) = project_endpoint_groups st"
  "projects (remove_endpoint_from_project e p st) = projects st"
  "removal_calls (remove_endpoint_from_project e p st) = removal_calls st @ [(e, p)]"
  by (simp_all add: remove_endpoint_from_project_def)

lemma catalog_api_get_endpoint_cong:
  "catalog_endpoints st1 = catalog_endpoints st2 \<Longrightarrow>
   catalog_api_get_endpoint st1 = catalog_api_get_endpoint st2"
  by (simp add: catalog_api_get_endpoint_def fun_eq_iff)

lemma is_stale_cong:
  "catalog_endpoints st1 = catalog_endpoints st2 \<Longrightarrow> is_stale st1 = is_stale st2"
  by (simp add: is_stale_def fun_eq_iff catalog_api_get_endpoint_cong [of st1 st2])

lemma lookup_answers_cong:
  "catalog_endpoints st1 = catalog_endpoints st2 \<Longrightarrow> lookup_answers st1 = lookup_answers st2"
  by (simp add: lookup_answers_def fun_eq_iff catalog_api_get_endpoint_cong [of st1 st2])

lemma lookup_cases:
  obtains (found) ep where "catalog_api_get_endpoint st k = Inr ep"
  | (stale) i where "catalog_api_get_endpoint st k = Inl (EndpointNotFound i)"
  | (other) e where "catalog_api_get_endpoint st k = Inl e" "\<And>i. e \<noteq> EndpointNotFound i"
proof (cases "catalog_api_get_endpoint st k")
  case (Inl e)
  then show ?thesis
    by (cases e) (auto intro: that)
next
  case (Inr ep)
  then show ?thesis by (rule found)
qed

lemma direct_endpoints_found:
  "catalog_api_get_endpoint st (Str (ref_endpoint_id ref)) = Inr ep \<Longrightarrow>
   direct_endpoints pid (ref # refs) acc st =
     direct_endpoints pid refs (AList.update (Str (ref_endpoint_id ref)) ep acc) st"
  by simp

lemma direct_endpoints_stale:
  "catalog_api_get_endpoint st (Str (ref_endpoint_id ref)) = Inl (EndpointNotFound i) \<Longrightarrow>
   direct_endpoints pid (ref # refs) acc st =
     direct_endpoints pid refs acc (remove_endpoint_from_project (Str (ref_endpoint_id ref)) pid st)"
  by simp

lemma direct_endpoints_other:
  "catalog_api_get_endpoint st (Str (ref_endpoint_id ref)) = Inl e \<Longrightarrow>
   (\<And>i. e \<noteq> EndpointNotFound i) \<Longrightarrow>
   direct_endpoints pid (ref # refs) acc st = (Inl e, st)"
  by (cases e) auto

lemma direct_endpoints_returns:
  "\<forall>ref \<in> set refs. lookup_answers st ref \<Longrightarrow>
   \<exists>f st'. direct_endpoints pid refs acc st = (Inr f, st')"
proof (induction refs arbitrary: acc st)
  case Nil
  then show ?case by simp
next
  case (Cons ref refs)
  let ?k = "Str (ref_endpoint_id ref)"
  show ?case
  proof (cases rule: lookup_cases [of st ?k])
    case (found ep)
    from Cons.prems have "\<forall>ref \<in> set refs. lookup_answers st ref" by simp
    from Cons.IH [OF this] show ?thesis
      unfolding direct_endpoints_found [OF found] by blast
  next
    case (stale i)
    let ?st = "remove_endpoint_from_project ?k pid st"
    have "lookup_answers ?st = lookup_answers st" by (rule lookup_answers_cong) simp
    with Cons.prems have "\<forall>ref \<in> set refs. lookup_answers ?st ref" by simp
    from Cons.IH [OF this] show ?thesis
      unfolding direct_endpoints_stale [OF stale] by blast
  next
    case (other e)
    with Cons.prems have False
      by (cases e) (auto simp: lookup_answers_def)
    then show ?thesis ..
  qed
qed

lemma direct_endpoints_store:
  "direct_endpoints pid refs acc st = (res, st') \<Longrightarrow>
   catalog_endpoints st' = catalog_endpoints st \<and>
   endpoint_groups st' = endpoint_groups st \<and>
   project_endpoint_groups st' = project_endpoint_groups st \<and>
   projects st' = projects st"
proof (induction refs arbitrary: acc st)
  case Nil
  then show ?case by simp
next
  case (Cons ref refs)
  let ?k = "Str (ref_endpoint_id ref)"
  show ?case
  proof (cases rule: lookup_cases [of st ?k])
    case (found ep)
    with Cons.prems Cons.IH show ?thesis
      unfolding direct_endpoints_found [OF found] by blast
  next
    case (stale i)
    from Cons.prems Cons.IH [of acc "remove_endpoint_from_project ?k pid st"]
    show ?thesis unfolding direct_endpoints_stale [OF stale] by simp
  next
    case (other e)
    with Cons.prems show ?thesis
      unfolding direct_endpoints_other [OF other] by simp
  qed
qed

lemma direct_endpoints_removals:
  "direct_endpoints pid refs acc st = (Inr f, st') \<Longrightarrow>
   removal_calls st' =
     removal_calls st @ map (\<lambda>ref. (Str (ref_endpoint_id ref), pid)) (filter (is_stale st) refs)"
proof (induction refs arbitrary: acc st)
  case Nil
  then show ?case by simp
next
  case (Cons ref refs)
  let ?k = "Str (ref_endpoint_id ref)"
  show ?case
  proof (cases rule: lookup_cases [of st ?k])
    case (found ep)
    then have "\<not> is_stale st ref" by (simp add: is_stale_def)
    with Cons.prems Cons.IH show ?thesis
      unfolding direct_endpoints_found [OF found] by simp
  next
    case (stale i)
    let ?st = "remove_endpoint_from_project ?k pid st"
    from stale have s: "is_stale st ref" by (simp add: is_stale_def)
    have c: "is_stale ?st = is_stale st" by (rule is_stale_cong) simp
    from Cons.prems have "direct_endpoints pid refs acc ?st = (Inr f, st')"
      unfolding direct_endpoints_stale [OF stale] .
    from Cons.IH [OF this] s c show ?thesis by simp
  next
    case (other e)
    with Cons.prems show ?thesis
      unfolding direct_endpoints_other [OF other] by simp
  qed
qed

lemma direct_endpoints_content:
  "direct_endpoints pid refs acc st = (Inr f, st') \<Longrightarrow>
   map_of f k =
     (if k \<in> (\<lambda>ref. Str (ref_endpoint_id ref)) ` set refs
      then (case catalog_api_get_endpoint st k of
              Inr ep \<Rightarrow> Some ep
            | Inl e \<Rightarrow> map_of acc k)
      else map_of acc k)"
proof (induction refs arbitrary: acc st)
  case Nil
  then show ?case by simp
next
  case (Cons ref refs)
  let ?k = "Str (ref_endpoint_id ref)"
  show ?case
  proof (cases rule: lookup_cases [of st ?k])
    case (found ep)
    from Cons.prems have "direct_endpoints pid refs (AList.update ?k ep acc) st = (Inr f, st')"
      unfolding direct_endpoints_found [OF found] .
    from Cons.IH [OF this] found show ?thesis
      by (auto simp: update_conv' split: sum.splits)
  next
    case (stale i)
    let ?st = "remove_endpoint_from_project ?k pid st"
    have c: "catalog_api_get_endpoint ?st = catalog_api_get_endpoint st"
      by (rule catalog_api_get_endpoint_cong) simp
    from Cons.prems have "direct_endpoints pid refs acc ?st = (Inr f, st')"
      unfolding direct_endpoints_stale [OF stale] .
    from Cons.IH [OF this] stale show ?thesis
      unfolding c by (auto split: sum.splits)
  next
    case (other e)
    with Cons.prems show ?thesis
      unfolding direct_endpoints_other [OF other] by simp
  qed
qed


subsection \<open>Stale associations and the loop over the endpoint groups\<close>

lemma direct_endpoints_associations:
  "direct_endpoints pid refs acc st = (res, st') \<Longrightarrow>
   set (project_endpoints st') \<subseteq> set (project_endpoints st)"
proof (induction refs arbitrary: acc st)
  case Nil
  then show ?case by simp
next
  case (Cons ref refs)
  let ?k = "Str (ref_endpoint_id ref)"
  show ?case
  proof (cases rule: lookup_cases [of st ?k])
    case (found ep)
    with Cons.prems Cons.IH show ?thesis
      unfolding direct_endpoints_found [OF found] by blast
  next
    case (stale i)
    let ?st = "remove_endpoint_from_project ?k pid st"
    from Cons.prems have "direct_endpoints pid refs acc ?st = (res, st')"
      unfolding direct_endpoints_stale [OF stale] .
    from Cons.IH [OF this]
    have "set (project_endpoints st') \<subseteq> set (project_endpoints ?st)" .
    moreover have "set (project_endpoints ?st) \<subseteq> set (project_endpoints st)"
      by (auto simp: remove_endpoint_from_project_def)
    ultimately show ?thesis by blast
  next
    case (other e)
    with Cons.prems show ?thesis
      unfolding direct_endpoints_other [OF other] by simp
  qed
qed

lemma direct_endpoints_removed:
  "direct_endpoints pid refs acc st = (Inr f, st') \<Longrightarrow> ref \<in> set refs \<Longrightarrow> is_stale st ref \<Longrightarrow>
   r \<in> set (project_endpoints st') \<Longrightarrow>
   \<not> (ref_endpoint_id r = ref_endpoint_id ref \<and> ref_project_id r = pid)"
proof (induction refs arbitrary: acc st)
  case Nil
  then show ?case by simp
next
  case (Cons ref0 refs)
  let ?k = "Str (ref_endpoint_id ref0)"
  show ?case
  proof (cases rule: lookup_cases [of st ?k])
    case (found ep)
    then have "\<not> is_stale st ref0" by (simp add: is_stale_def)
    with Cons.prems(2,3) have "ref \<in> set refs" by auto
    with Cons.prems(1,3,4) Cons.IH show ?thesis
      unfolding direct_endpoints_found [OF found] by blast
  next
    case (stale i)
    let ?st = "remove_endpoint_from_project ?k pid st"
    have c: "is_stale ?st = is_stale st" by (rule is_stale_cong) simp
    from Cons.prems(1) have d: "direct_endpoints pid refs acc ?st = (Inr f, st')"
      unfolding direct_endpoints_stale [OF stale] .
    show ?thesis
    proof (cases "ref_endpoint_id ref = ref_endpoint_id ref0")
      case True
      from direct_endpoints_associations [OF d] Cons.prems(4)
      have "r \<in> set (project_endpoints ?st)" by blast
      with True show ?thesis by (auto simp: remove_endpoint_from_project_def)
    next
      case False
      with Cons.prems(2) have "ref \<in> set refs" by auto
      with Cons.IH [OF d] Cons.prems(3,4) c show ?thesis by simp
    qed
  next
    case (other e)
    with Cons.prems show ?thesis
      unfolding direct_endpoints_other [OF other] by simp
  qed
qed


lemma find_by_id_None:
  "find_by_id rs ident = Inr None \<Longrightarrow> r \<in> set rs \<Longrightarrow> map_of r ''id'' \<noteq> Some ident"
  by (induction rs) (auto simp: getitem_def split: option.splits if_splits)

lemma find_by_id_error: "find_by_id rs ident = Inl e \<Longrightarrow> e = KeyError ''id''"
  by (induction rs) (auto simp: getitem_def split: option.splits if_splits)


lemma stale_not_in_catalog:
  "catalog_api_get_endpoint st k = Inl (EndpointNotFound i) \<Longrightarrow>
   catalog_endpoints st = Inr endpoints \<Longrightarrow> ep \<in> set endpoints \<Longrightarrow>
   map_of ep ''id'' \<noteq> Some k"
  by (auto simp: catalog_api_get_endpoint_def split: sum.splits option.splits
      dest: find_by_id_None find_by_id_error)

lemma filter_endpoints_subset:
  "filter_endpoints endpoints filters = Inr res \<Longrightarrow> set res \<subseteq> set endpoints"
  by (induction endpoints arbitrary: res) (auto split: sum.splits if_splits)


lemma add_group_endpoints_keeps:
  "add_group_endpoints eps f = Inr f' \<Longrightarrow> map_of f k = Some ep \<Longrightarrow> map_of f' k = Some ep"
proof (induction eps arbitrary: f)
  case Nil
  then show ?case by simp
next
  case (Cons e eps)
  from Cons.prems(1) obtain i where i: "getitem e ''id'' = Inr i" and h: "hashable i"
    by (auto split: sum.splits if_splits)
  show ?case
  proof (cases "map_of f i = None")
    case True
    with Cons.prems(2) have "i \<noteq> k" by auto
    with Cons.prems(2) have "map_of (AList.update i e f) k = Some ep"
      by (simp add: update_conv')
    moreover from Cons.prems(1) i h True
    have "add_group_endpoints eps (AList.update i e f) = Inr f'" by simp
    ultimately show ?thesis by (rule Cons.IH [rotated])
  next
    case False
    with Cons.prems(1) i h have "add_group_endpoints eps f = Inr f'" by simp
    from Cons.IH [OF this Cons.prems(2)] show ?thesis .
  qed
qed

lemma add_group_endpoints_source:
  "add_group_endpoints eps f = Inr f' \<Longrightarrow> map_of f' k = Some ep \<Longrightarrow>
   map_of f k = Some ep \<or> (ep \<in> set eps \<and> map_of ep ''id'' = Some k)"
proof (induction eps arbitrary: f)
  case Nil
  then show ?case by simp
next
  case (Cons e eps)
  from Cons.prems(1) obtain i where i: "getitem e ''id'' = Inr i" and h: "hashable i"
    by (auto split: sum.splits if_splits)
  from i have ei: "map_of e ''id'' = Some i"
    by (simp add: getitem_def split: option.splits)
  show ?case
  proof (cases "map_of f i = None")
    case True
    with Cons.prems(1) i h
    have "add_group_endpoints eps (AList.update i e f) = Inr f'" by simp
    from Cons.IH [OF this Cons.prems(2)]
    have "map_of (AList.update i e f) k = Some ep \<or> (ep \<in> set eps \<and> map_of ep ''id'' = Some k)" .
    with ei show ?thesis by (auto simp: update_conv' split: if_splits)
  next
    case False
    with Cons.prems(1) i h have "add_group_endpoints eps f = Inr f'" by simp
    from Cons.IH [OF this Cons.prems(2)] show ?thesis by auto
  qed
qed


lemma group_endpoints_keeps:
  "group_endpoints st groups f = Inr f' \<Longrightarrow> map_of f k = Some ep \<Longrightarrow> map_of f' k = Some ep"
proof (induction groups arbitrary: f)
  case Nil
  then show ?case by simp
next
  case (Cons g groups)
  from Cons.prems(1) obtain eps f1 where
    "add_group_endpoints eps f = Inr f1" and "group_endpoints st groups f1 = Inr f'"
    by (auto split: sum.splits)
  with Cons.IH Cons.prems(2) show ?case
    by (blast dest: add_group_endpoints_keeps)
qed

lemma group_endpoints_source:
  "group_endpoints st groups f = Inr f' \<Longrightarrow> map_of f' k = Some ep \<Longrightarrow>
   map_of f k = Some ep \<or>
   (\<exists>endpoints. catalog_endpoints st = Inr endpoints \<and> ep \<in> set endpoints \<and>
      map_of ep ''id'' = Some k)"
proof (induction groups arbitrary: f)
  case Nil
  then show ?case by simp
next
  case (Cons g groups)
  from Cons.prems(1) obtain eps f1 where
    e: "get_endpoints_filtered_by_endpoint_group st (group_id g) = Inr eps"
    and a: "add_group_endpoints eps f = Inr f1" and r: "group_endpoints st groups f1 = Inr f'"
    by (auto split: sum.splits)
  from e obtain endpoints where c: "catalog_endpoints st = Inr endpoints"
    and sub: "set eps \<subseteq> set endpoints"
    by (auto simp: get_endpoints_filtered_by_endpoint_group_def split: sum.splits
        dest: filter_endpoints_subset)
  from Cons.IH [OF r Cons.prems(2)]
  consider "map_of f1 k = Some ep"
    | "\<exists>endpoints. catalog_endpoints st = Inr endpoints \<and> ep \<in> set endpoints \<and>
         map_of ep ''id'' = Some k" by blast
  then show ?case
  proof cases
    case 1
    from add_group_endpoints_source [OF a 1] c sub show ?thesis by blast
  next
    case 2
    then show ?thesis by blast
  qed
qed

subsection \<open>The endpoints of a project\<close>


lemma example_resolution:
  "list_endpoints_for_project ''p'' example_store =
     (Inr [(Str ''X'', endpoint_X), (Str ''Y'', endpoint_Y)],
      example_store
        \<lparr>project_endpoints := [\<lparr>ref_endpoint_id = ''X'', ref_project_id = ''p''\<rparr>],
         removal_calls := [(Str ''Z'', ''p'')]\<rparr>)"
  by (simp add: list_endpoints_for_project_def example_store_def endpoint_X_def endpoint_Y_def
      driver_list_endpoints_for_project_def catalog_api_get_endpoint_def getitem_def
      remove_endpoint_from_project_def get_endpoint_groups_for_project_def
      resource_api_get_project_def driver_list_endpoint_groups_for_project_def
      driver_get_endpoint_group_def get_endpoints_filtered_by_endpoint_group_def)


subsection \<open>Resolution when every lookup answers\<close>

lemma resolution_when_lookups_answer:
  assumes "\<forall>ref \<in> set (driver_list_endpoints_for_project st project_id). lookup_answers st ref"
    and "list_endpoints_for_project project_id st = (result, st')"
  shows "removal_calls st' =
           removal_calls st @
           map (\<lambda>ref. (Str (ref_endpoint_id ref), project_id))
             (filter (is_stale st) (driver_list_endpoints_for_project st project_id)) \<and>
         (\<forall>ref \<in> set (driver_list_endpoints_for_project st project_id).
            if is_stale st ref
            then ref \<notin> set (project_endpoints st') \<and>
                 (\<forall>filtered. result = Inr filtered \<longrightarrow>
                    map_of filtered (Str (ref_endpoint_id ref)) = None)
            else \<forall>filtered. result = Inr filtered \<longrightarrow>
                   (\<exists>ep. catalog_api_get_endpoint st (Str (ref_endpoint_id ref)) = Inr ep \<and>
                      map_of filtered (Str (ref_endpoint_id ref)) = Some ep))"
proof -
  let ?refs = "driver_list_endpoints_for_project st project_id"
  from direct_endpoints_returns [OF assms(1), of project_id "[]"] obtain direct st1 where
    d: "direct_endpoints project_id ?refs [] st = (Inr direct, st1)" by blast
  with assms(2) have st': "st' = st1"
    and res: "result = (case get_endpoint_groups_for_project st1 project_id of
                Inl e \<Rightarrow> Inl e
              | Inr groups \<Rightarrow> group_endpoints st1 groups direct)"
    by (auto simp: list_endpoints_for_project_def split: sum.splits)
  from direct_endpoints_store [OF d] have cat: "catalog_endpoints st1 = catalog_endpoints st"
    by simp
  have 1: "removal_calls st' =
           removal_calls st @ map (\<lambda>ref. (Str (ref_endpoint_id ref), project_id))
             (filter (is_stale st) ?refs)"
    unfolding st' using d by (rule direct_endpoints_removals)
  have 2: "if is_stale st ref
            then ref \<notin> set (project_endpoints st') \<and>
                 (\<forall>filtered. result = Inr filtered \<longrightarrow>
                    map_of filtered (Str (ref_endpoint_id ref)) = None)
            else \<forall>filtered. result = Inr filtered \<longrightarrow>
                   (\<exists>ep. catalog_api_get_endpoint st (Str (ref_endpoint_id ref)) = Inr ep \<and>
                      map_of filtered (Str (ref_endpoint_id ref)) = Some ep)"
    if ref: "ref \<in> set ?refs" for ref
  proof (cases "is_stale st ref")
    case True
    let ?k = "Str (ref_endpoint_id ref)"
    from ref have pid: "ref_project_id ref = project_id"
      by (simp add: driver_list_endpoints_for_project_def)
    from True obtain i where nf: "catalog_api_get_endpoint st ?k = Inl (EndpointNotFound i)"
      by (auto simp: is_stale_def split: sum.splits exn.splits)
    have a: "ref \<notin> set (project_endpoints st')"
    proof
      assume "ref \<in> set (project_endpoints st')"
      with direct_endpoints_removed [OF d ref True, of ref] pid st' show False by simp
    qed
    have b: "map_of filtered ?k = None" if r: "result = Inr filtered" for filtered
    proof (rule ccontr)
      assume "map_of filtered ?k \<noteq> None"
      then obtain ep where ep: "map_of filtered ?k = Some ep" by auto
      from r res obtain groups where g: "group_endpoints st1 groups direct = Inr filtered"
        by (auto split: sum.splits)
      from direct_endpoints_content [OF d, of ?k] nf have "map_of direct ?k = None"
        by (simp split: if_splits)
      with group_endpoints_source [OF g ep] obtain endpoints where
        "catalog_endpoints st1 = Inr endpoints" "ep \<in> set endpoints" "map_of ep ''id'' = Some ?k"
        by auto
      with stale_not_in_catalog [OF nf, of endpoints ep] cat show False by simp
    qed
    from True a b show ?thesis by simp
  next
    case False
    let ?k = "Str (ref_endpoint_id ref)"
    from assms(1) ref have "lookup_answers st ref" by blast
    with False obtain ep where ep: "catalog_api_get_endpoint st ?k = Inr ep"
      by (auto simp: is_stale_def lookup_answers_def split: sum.splits exn.splits)
    have "map_of filtered ?k = Some ep" if r: "result = Inr filtered" for filtered
    proof -
      from r res obtain groups where g: "group_endpoints st1 groups direct = Inr filtered"
        by (auto split: sum.splits)
      from direct_endpoints_content [OF d, of ?k] ep ref have "map_of direct ?k = Some ep"
        by auto
      with g show ?thesis by (rule group_endpoints_keeps)
    qed
    with False ep show ?thesis by simp
  qed
  from 1 2 show ?thesis by blast
qed


lemma find_by_id_None_returns:
  "find_by_id rs ident = Inr None \<Longrightarrow> \<exists>r. find_by_id rs ident' = Inr r"
proof (induction rs)
  case Nil
  have "find_by_id [] ident' = Inr None" by simp
  then show ?case by (rule exI)
next
  case (Cons r rs)
  from Cons.prems obtain i where i: "getitem r ''id'' = Inr i" and ne: "i \<noteq> ident"
    and rest: "find_by_id rs ident = Inr None"
    by (auto split: sum.splits if_splits)
  from Cons.IH [OF rest] obtain r' where r': "find_by_id rs ident' = Inr r'" by blast
  show ?case
  proof (cases "i = ident'")
    case True
    with i have "find_by_id (r # rs) ident' = Inr (Some r)" by simp
    then show ?thesis by (rule exI)
  next
    case False
    with i r' have "find_by_id (r # rs) ident' = Inr r'" by simp
    then show ?thesis by (rule exI)
  qed
qed

lemma stale_lookup_answers:
  assumes "is_stale st ref0"
  shows "lookup_answers st ref"
proof (cases "catalog_endpoints st")
  case (Inl e)
  with assms show ?thesis
    by (auto simp: is_stale_def lookup_answers_def catalog_api_get_endpoint_def
        split: exn.splits)
next
  case (Inr endpoints)
  with assms have "find_by_id endpoints (Str (ref_endpoint_id ref0)) = Inr None"
    by (auto simp: is_stale_def catalog_api_get_endpoint_def
        split: sum.splits option.splits exn.splits dest: find_by_id_error)
  from find_by_id_None_returns [OF this, of "Str (ref_endpoint_id ref)"] obtain r where
    "find_by_id endpoints (Str (ref_endpoint_id ref)) = Inr r" by blast
  with Inr show ?thesis
    by (cases r) (simp_all add: lookup_answers_def catalog_api_get_endpoint_def)
qed


subsection \<open>The v2 catalog and failing substitutions\<close>

lemma format_service_ref_fails:
  assumes "only_malformed fmt subs silent"
    and "\<exists>(k, v) \<in> set sref. fmt (Str v) subs (Some silent) = Inl MalformedEndpoint"
  shows "format_service_ref fmt subs silent sref acc = Inl MalformedEndpoint"
  using assms
proof (induction sref arbitrary: acc)
  case Nil
  then show ?case by simp
next
  case (Cons p sref)
  obtain k v where p: "p = (k, v)" by (cases p)
  show ?case
  proof (cases "fmt (Str v) subs (Some silent)")
    case (Inl e)
    with Cons.prems(1) have "e = MalformedEndpoint" by (simp add: only_malformed_def)
    with Inl p show ?thesis by simp
  next
    case (Inr r)
    with Cons.prems(2) p have "\<exists>(k, v) \<in> set sref. fmt (Str v) subs (Some silent) = Inl MalformedEndpoint"
      by auto
    with Cons.IH Cons.prems(1) Inr p show ?thesis by simp
  qed
qed

lemma format_service_ref_succeeds:
  assumes "\<forall>(k, v) \<in> set sref. \<exists>r. fmt (Str v) subs (Some silent) = Inr r"
    and "distinct (map fst sref)"
  shows "\<exists>d. format_service_ref fmt subs silent sref acc = Inr d \<and>
           (\<forall>k. map_of d k =
              (case map_of sref k of
                 None \<Rightarrow> map_of acc k
               | Some v \<Rightarrow> (case attribute_value fmt subs silent v of None \<Rightarrow> map_of acc k | Some s \<Rightarrow> Some s)))"
  using assms
proof (induction sref arbitrary: acc)
  case Nil
  then show ?case by simp
next
  case (Cons p sref)
  obtain k v where p: "p = (k, v)" by (cases p)
  from Cons.prems p obtain r where r: "fmt (Str v) subs (Some silent) = Inr r" by auto
  let ?acc = "case r of None \<Rightarrow> acc | Some s \<Rightarrow> if s \<noteq> [] then AList.update k s acc else acc"
  from Cons.prems have rest: "\<forall>(k, v) \<in> set sref. \<exists>r. fmt (Str v) subs (Some silent) = Inr r"
    and dist: "distinct (map fst sref)" by auto
  from Cons.IH [OF rest dist, of ?acc] obtain d where
    d: "format_service_ref fmt subs silent sref ?acc = Inr d"
    and dk: "\<And>k. map_of d k =
              (case map_of sref k of
                 None \<Rightarrow> map_of ?acc k
               | Some v \<Rightarrow> (case attribute_value fmt subs silent v of None \<Rightarrow> map_of ?acc k | Some s \<Rightarrow> Some s))"
    by blast
  from Cons.prems(2) p have notin: "map_of sref k = None"
    by (simp add: map_of_eq_None_iff)
  have "format_service_ref fmt subs silent (p # sref) acc = Inr d"
    using d r p by simp
  moreover have "map_of d k' =
              (case map_of (p # sref) k' of
                 None \<Rightarrow> map_of acc k'
               | Some v \<Rightarrow> (case attribute_value fmt subs silent v of None \<Rightarrow> map_of acc k' | Some s \<Rightarrow> Some s))" for k'
    using dk [of k'] notin r p
    by (auto simp: attribute_value_def update_conv' split: option.splits if_splits)
  ultimately show ?case by blast
qed


lemma format_service_ref_error:
  assumes "only_malformed fmt subs silent"
    and "format_service_ref fmt subs silent sref acc = Inl e"
  shows "e = MalformedEndpoint"
  using assms
proof (induction sref arbitrary: acc)
  case Nil
  then show ?case by simp
next
  case (Cons p sref)
  obtain k v where p: "p = (k, v)" by (cases p)
  show ?case
  proof (cases "fmt (Str v) subs (Some silent)")
    case (Inl e')
    with Cons.prems p show ?thesis by (simp add: only_malformed_def)
  next
    case (Inr r)
    with Cons.prems p Cons.IH show ?thesis by simp
  qed
qed

lemma format_region_ref_result:
  assumes "only_malformed fmt subs silent" and "distinct (map fst rref)"
  shows "\<exists>rc. format_region_ref fmt subs silent rref acc = Inr rc \<and>
           (\<forall>s. map_of rc s =
              (case map_of rref s of
                 None \<Rightarrow> map_of acc s
               | Some sref \<Rightarrow>
                   (case format_service_ref fmt subs silent sref [] of
                      Inl e \<Rightarrow> map_of acc s
                    | Inr d \<Rightarrow> Some d)))"
  using assms(2)
proof (induction rref arbitrary: acc)
  case Nil
  then show ?case by simp
next
  case (Cons p rref)
  obtain s0 sref0 where p: "p = (s0, sref0)" by (cases p)
  from Cons.prems p have dist: "distinct (map fst rref)" and notin: "map_of rref s0 = None"
    by (simp_all add: map_of_eq_None_iff)
  show ?case
  proof (cases "format_service_ref fmt subs silent sref0 []")
    case (Inl e)
    with assms(1) have e: "e = MalformedEndpoint" by (rule format_service_ref_error)
    from Cons.IH [OF dist, of acc] obtain rc where
      rc: "format_region_ref fmt subs silent rref acc = Inr rc"
      and rck: "\<And>s. map_of rc s =
              (case map_of rref s of
                 None \<Rightarrow> map_of acc s
               | Some sref \<Rightarrow>
                   (case format_service_ref fmt subs silent sref [] of
                      Inl e \<Rightarrow> map_of acc s
                    | Inr d \<Rightarrow> Some d))"
      by blast
    have "format_region_ref fmt subs silent (p # rref) acc = Inr rc"
      using rc Inl e p by simp
    moreover have "map_of rc s =
              (case map_of (p # rref) s of
                 None \<Rightarrow> map_of acc s
               | Some sref \<Rightarrow>
                   (case format_service_ref fmt subs silent sref [] of
                      Inl e \<Rightarrow> map_of acc s
                    | Inr d \<Rightarrow> Some d))" for s
      using rck [of s] notin Inl p by (cases "s = s0") simp_all
    ultimately show ?thesis by blast
  next
    case (Inr d)
    from Cons.IH [OF dist, of "AList.update s0 d acc"] obtain rc where
      rc: "format_region_ref fmt subs silent rref (AList.update s0 d acc) = Inr rc"
      and rck: "\<And>s. map_of rc s =
              (case map_of rref s of
                 None \<Rightarrow> map_of (AList.update s0 d acc) s
               | Some sref \<Rightarrow>
                   (case format_service_ref fmt subs silent sref [] of
                      Inl e \<Rightarrow> map_of (AList.update s0 d acc) s
                    | Inr d \<Rightarrow> Some d))"
      by blast
    have "format_region_ref fmt subs silent (p # rref) acc = Inr rc"
      using rc Inr p by simp
    moreover have "map_of rc s =
              (case map_of (p # rref) s of
                 None \<Rightarrow> map_of acc s
               | Some sref \<Rightarrow>
                   (case format_service_ref fmt subs silent sref [] of
                      Inl e \<Rightarrow> map_of acc s
                    | Inr d \<Rightarrow> Some d))" for s
      using rck [of s] notin Inr p
      by (cases "s = s0") (auto simp: update_conv' split: option.splits sum.splits)
    ultimately show ?thesis by blast
  qed
qed

lemma format_regions_result:
  assumes "only_malformed fmt subs silent"
    and "distinct (map fst tpl)"
    and "\<forall>(r, rref) \<in> set tpl. distinct (map fst rref)"
  shows "\<exists>cat. format_regions fmt subs silent tpl acc = Inr cat \<and>
           (\<forall>r. map_of cat r =
              (case map_of tpl r of
                 None \<Rightarrow> map_of acc r
               | Some rref \<Rightarrow>
                   (case format_region_ref fmt subs silent rref [] of
                      Inl e \<Rightarrow> None
                    | Inr rc \<Rightarrow> Some rc)))"
  using assms(2,3)
proof (induction tpl arbitrary: acc)
  case Nil
  then show ?case by simp
next
  case (Cons p tpl)
  obtain r0 rref0 where p: "p = (r0, rref0)" by (cases p)
  from Cons.prems p have dist: "distinct (map fst tpl)" and notin: "map_of tpl r0 = None"
    and dist0: "distinct (map fst rref0)"
    and rest: "\<forall>(r, rref) \<in> set tpl. distinct (map fst rref)"
    by (simp_all add: map_of_eq_None_iff)
  from format_region_ref_result [OF assms(1) dist0, of "[]"] obtain rc0 where
    rc0: "format_region_ref fmt subs silent rref0 [] = Inr rc0" by blast
  from Cons.IH [OF dist rest, of "AList.update r0 rc0 acc"] obtain cat where
    cat: "format_regions fmt subs silent tpl (AList.update r0 rc0 acc) = Inr cat"
    and catk: "\<And>r. map_of cat r =
              (case map_of tpl r of
                 None \<Rightarrow> map_of (AList.update r0 rc0 acc) r
               | Some rref \<Rightarrow>
                   (case format_region_ref fmt subs silent rref [] of
                      Inl e \<Rightarrow> None
                    | Inr rc \<Rightarrow> Some rc))"
    by blast
  have "format_regions fmt subs silent (p # tpl) acc = Inr cat"
    using cat rc0 p by simp
  moreover have "map_of cat r =
              (case map_of (p # tpl) r of
                 None \<Rightarrow> map_of acc r
               | Some rref \<Rightarrow>
                   (case format_region_ref fmt subs silent rref [] of
                      Inl e \<Rightarrow> None
                    | Inr rc \<Rightarrow> Some rc))" for r
    using catk [of r] notin rc0 p
    by (cases "r = r0") (auto simp: update_conv' split: option.splits sum.splits)
  ultimately show ?case by blast
qed


lemma substitute_error: "substitute ctx tol ps = Inl e \<Longrightarrow> e = MalformedEndpoint"
  by (induction ps arbitrary: e)
    (auto split: list.splits if_splits option.splits sum.splits simp: Let_def)

lemma format_url_error: "format_url v ctx silent = Inl e \<Longrightarrow> e = MalformedEndpoint"
  by (cases v) (auto split: list.splits sum.splits option.splits dest: substitute_error)

lemma format_url_only_malformed: "only_malformed format_url subs silent"
  unfolding only_malformed_def by (blast dest: format_url_error)

section \<open>The claims\<close>

text \<open>
  Claim C1, as amended. In the v2 catalog build, for a formatter that raises nothing but
  \<^verbatim>\<open>MalformedEndpoint\<close>, the failure is never propagated: \<^verbatim>\<open>get_catalog\<close> returns a catalog
  with a mapping for every region of the template. A service with an attribute whose
  substitution fails is left out of its region's mapping as a whole; a service none of whose
  attributes fails is emitted with exactly the attributes whose formatted value is not empty.
\<close>

theorem get_catalog_skips_failing_service:
  assumes "only_malformed fmt (v2_substitutions conf user_id tenant_id)
             (v2_silent_keyerror_failures tenant_id)"
    and "wf_templates templates"
    and "(region, region_ref) \<in> set templates"
    and "(service, service_ref) \<in> set region_ref"
  shows "\<exists>catalog region_catalog.
           get_catalog fmt conf templates user_id tenant_id = Inr catalog \<and>
           map_of catalog region = Some region_catalog \<and>
           (if \<exists>(k, v) \<in> set service_ref.
                 fmt (Str v) (v2_substitutions conf user_id tenant_id)
                   (Some (v2_silent_keyerror_failures tenant_id)) = Inl MalformedEndpoint
            then map_of region_catalog service = None
            else \<exists>service_data.
                   map_of region_catalog service = Some service_data \<and>
                   (\<forall>k. map_of service_data k =
                      (case map_of service_ref k of
                         None \<Rightarrow> None
                       | Some v \<Rightarrow>
                           attribute_value fmt (v2_substitutions conf user_id tenant_id)
                             (v2_silent_keyerror_failures tenant_id) v)))"
proof -
  let ?subs = "v2_substitutions conf user_id tenant_id"
  let ?silent = "v2_silent_keyerror_failures tenant_id"
  from assms(2) have d1: "distinct (map fst templates)"
    and d2: "\<forall>(r, rref) \<in> set templates. distinct (map fst rref)"
    by (auto simp: wf_templates_def)
  from assms(2,3) have d3: "distinct (map fst region_ref)"
    by (auto simp: wf_templates_def)
  from assms(2,3,4) have d4: "distinct (map fst service_ref)"
    by (fastforce simp: wf_templates_def)
  from d1 assms(3) have m1: "map_of templates region = Some region_ref" by simp
  from d3 assms(4) have m2: "map_of region_ref service = Some service_ref" by simp
  from format_regions_result [OF assms(1) d1 d2, of "[]"] obtain catalog where
    cat: "format_regions fmt ?subs ?silent templates [] = Inr catalog"
    and catk: "\<And>r. map_of catalog r =
              (case map_of templates r of
                 None \<Rightarrow> map_of [] r
               | Some rref \<Rightarrow>
                   (case format_region_ref fmt ?subs ?silent rref [] of
                      Inl e \<Rightarrow> None
                    | Inr rc \<Rightarrow> Some rc))"
    by blast
  from format_region_ref_result [OF assms(1) d3, of "[]"] obtain rc where
    rc: "format_region_ref fmt ?subs ?silent region_ref [] = Inr rc"
    and rck: "\<And>s. map_of rc s =
              (case map_of region_ref s of
                 None \<Rightarrow> map_of [] s
               | Some sref \<Rightarrow>
                   (case format_service_ref fmt ?subs ?silent sref [] of
                      Inl e \<Rightarrow> map_of [] s
                    | Inr d \<Rightarrow> Some d))"
    by blast
  have g: "get_catalog fmt conf templates user_id tenant_id = Inr catalog"
    using cat by (simp add: get_catalog_def)
  have r: "map_of catalog region = Some rc"
    using catk [of region] m1 rc by simp
  have s: "map_of rc service =
             (case format_service_ref fmt ?subs ?silent service_ref [] of
                Inl e \<Rightarrow> None | Inr d \<Rightarrow> Some d)"
    using rck [of service] m2 by (simp split: sum.splits)
  show ?thesis
  proof (cases "\<exists>(k, v) \<in> set service_ref. fmt (Str v) ?subs (Some ?silent) = Inl MalformedEndpoint")
    case True
    with assms(1) have "format_service_ref fmt ?subs ?silent service_ref [] = Inl MalformedEndpoint"
      by (rule format_service_ref_fails)
    with s have "map_of rc service = None" by simp
    with g r True show ?thesis by simp
  next
    case False
    have ok: "\<forall>(k, v) \<in> set service_ref. \<exists>r. fmt (Str v) ?subs (Some ?silent) = Inr r"
    proof (clarify)
      fix k v assume kv: "(k, v) \<in> set service_ref"
      show "\<exists>r. fmt (Str v) ?subs (Some ?silent) = Inr r"
      proof (cases "fmt (Str v) ?subs (Some ?silent)")
        case (Inl e)
        with assms(1) have "e = MalformedEndpoint" by (simp add: only_malformed_def)
        with Inl kv False show ?thesis by blast
      next
        case (Inr r)
        then show ?thesis by blast
      qed
    qed
    from format_service_ref_succeeds [of service_ref fmt ?subs ?silent "[]", OF ok d4] obtain d where
      d: "format_service_ref fmt ?subs ?silent service_ref [] = Inr d"
      and dk: "\<And>k. map_of d k =
              (case map_of service_ref k of
                 None \<Rightarrow> map_of [] k
               | Some v \<Rightarrow> (case attribute_value fmt ?subs ?silent v of None \<Rightarrow> map_of [] k | Some s \<Rightarrow> Some s))"
      by blast
    have "map_of d k = (case map_of service_ref k of None \<Rightarrow> None
            | Some v \<Rightarrow> attribute_value fmt ?subs ?silent v)" for k
      using dk [of k] by (simp split: option.splits)
    with s d g r False show ?thesis by simp
  qed
qed

text \<open>
  The theorem at a template with one service whose \<^verbatim>\<open>publicURL\<close> names a key that the
  substitutions do not have: the region is there, the service is not.
\<close>

theorem get_catalog_skips_failing_service_witness:
  "wf_templates
     [(''RegionOne'',
        [(''identity'', [(''name'', ''Identity''), (''publicURL'', ''http://$(host)s/'')])])] \<and>
   (\<exists>catalog region_catalog.
      get_catalog format_url
        \<lparr>conf_items = [], eventlet_server_items = [], return_all_endpoints_if_no_filter = False\<rparr>
        [(''RegionOne'',
           [(''identity'', [(''name'', ''Identity''), (''publicURL'', ''http://$(host)s/'')])])]
        ''u'' None = Inr catalog \<and>
      map_of catalog ''RegionOne'' = Some region_catalog \<and>
      map_of region_catalog ''identity'' = None)"
proof -
  let ?conf = "\<lparr>conf_items = [], eventlet_server_items = [], return_all_endpoints_if_no_filter = False\<rparr>"
  let ?sref = "[(''name'', ''Identity''), (''publicURL'', ''http://$(host)s/'')]"
  let ?rref = "[(''identity'', ?sref)]"
  let ?tpl = "[(''RegionOne'', ?rref)]"
  have h1: "only_malformed format_url (v2_substitutions ?conf ''u'' None)
              (v2_silent_keyerror_failures None)"
    by (rule format_url_only_malformed)
  have h2: "wf_templates ?tpl" by (simp add: wf_templates_def)
  have h3: "(''RegionOne'', ?rref) \<in> set ?tpl" by simp
  have h4: "(''identity'', ?sref) \<in> set ?rref" by simp
  have fails: "format_url (Str ''http://$(host)s/'') (v2_substitutions ?conf ''u'' None)
                 (Some (v2_silent_keyerror_failures None)) = Inl MalformedEndpoint"
    by (simp add: v2_substitutions_def v2_silent_keyerror_failures_def dict_of_def str_split_def)
  show ?thesis
    using get_catalog_skips_failing_service [OF h1 h2 h3 h4] h2 fails by simp
qed

text \<open>
  Claim C1 as stated fails: the \<^verbatim>\<open>name\<close> of the service is formatted without error and its
  \<^verbatim>\<open>publicURL\<close> is malformed, yet the region's mapping comes out empty instead of holding the
  service with its \<^verbatim>\<open>name\<close>.
\<close>

theorem get_catalog_counterexample:
  "format_url (Str ''Identity'')
     (v2_substitutions
        \<lparr>conf_items = [], eventlet_server_items = [], return_all_endpoints_if_no_filter = False\<rparr>
        ''u'' None)
     (Some (v2_silent_keyerror_failures None)) = Inr (Some ''Identity'') \<and>
   format_url (Str ''http://$(host)s/'')
     (v2_substitutions
        \<lparr>conf_items = [], eventlet_server_items = [], return_all_endpoints_if_no_filter = False\<rparr>
        ''u'' None)
     (Some (v2_silent_keyerror_failures None)) = Inl MalformedEndpoint \<and>
   get_catalog format_url
     \<lparr>conf_items = [], eventlet_server_items = [], return_all_endpoints_if_no_filter = False\<rparr>
     [(''RegionOne'',
        [(''identity'', [(''name'', ''Identity''), (''publicURL'', ''http://$(host)s/'')])])]
     ''u'' None = Inr [(''RegionOne'', [])]"
  by (simp add: get_catalog_def v2_substitutions_def v2_silent_keyerror_failures_def dict_of_def
      str_split_def)

text \<open>
  Claim C2, as amended. The matching loop ends with \<^verbatim>\<open>is_candidate\<close> true exactly when, for
  every filter key, the endpoint has a value at that key and the value is in the accepted
  set of the filter (a value that is not a list counting as the one-element set): AND
  across keys, OR within the accepted set. It returns for every endpoint that has all the
  filter keys. It is not total: at a filter key that the endpoint lacks, the result is the
  \<^verbatim>\<open>KeyError\<close> of \<^verbatim>\<open>endpoint[key]\<close> when all the filters before it match, and what the loop
  over the filters before it gives (no match, or its own error) otherwise.
\<close>

theorem is_candidate_matching:
  "(is_candidate endpoint filters = Inr True \<longleftrightarrow>
      (\<forall>(key, val) \<in> set filters.
         \<exists>x. map_of endpoint key = Some x \<and> x \<in> set (accepted_values val))) \<and>
   ((\<forall>(key, val) \<in> set filters. map_of endpoint key \<noteq> None) \<longrightarrow>
      (\<exists>b. is_candidate endpoint filters = Inr b)) \<and>
   (\<forall>pre key val post.
      filters = pre @ (key, val) # post \<and> map_of endpoint key = None \<longrightarrow>
        is_candidate endpoint filters =
          (case is_candidate endpoint pre of
             Inr True \<Rightarrow> Inl (KeyError key)
           | other \<Rightarrow> other))"
proof (intro conjI allI impI)
  show "is_candidate endpoint filters = Inr True \<longleftrightarrow>
      (\<forall>(key, val) \<in> set filters.
         \<exists>x. map_of endpoint key = Some x \<and> x \<in> set (accepted_values val))"
    by (rule is_candidate_True_iff)
next
  assume "\<forall>(key, val) \<in> set filters. map_of endpoint key \<noteq> None"
  then show "\<exists>b. is_candidate endpoint filters = Inr b" by (rule is_candidate_returns)
next
  fix pre key val post
  assume "filters = pre @ (key, val) # post \<and> map_of endpoint key = None"
  then show "is_candidate endpoint filters =
          (case is_candidate endpoint pre of
             Inr True \<Rightarrow> Inl (KeyError key)
           | other \<Rightarrow> other)"
    by (simp add: is_candidate_append is_candidate_Cons del: is_candidate.simps
        split: sum.splits bool.splits)
qed

text \<open>
  The theorem at an endpoint with the keys \<^verbatim>\<open>id\<close>, \<^verbatim>\<open>interface\<close> and \<^verbatim>\<open>region_id\<close>: a
  match, a returned result, the error at a missing key after a matching filter, and no
  match at a missing key after a filter that does not match.
\<close>

theorem is_candidate_matching_witness:
  "is_candidate [(''id'', Str ''X''), (''interface'', Str ''public''), (''region_id'', Str ''R1'')]
     [(''interface'', Str ''public''), (''region_id'', Lst [Str ''R1'', Str ''R2''])] = Inr True \<and>
   (\<exists>b. is_candidate [(''id'', Str ''X''), (''interface'', Str ''public''), (''region_id'', Str ''R1'')]
          [(''interface'', Str ''admin''), (''region_id'', Lst [Str ''R1'', Str ''R2''])] = Inr b) \<and>
   is_candidate [(''id'', Str ''X''), (''interface'', Str ''public''), (''region_id'', Str ''R1'')]
     [(''interface'', Str ''public''), (''service_id'', Str ''s'')] = Inl (KeyError ''service_id'') \<and>
   is_candidate [(''id'', Str ''X''), (''interface'', Str ''public''), (''region_id'', Str ''R1'')]
     [(''interface'', Str ''admin''), (''service_id'', Str ''s'')] = Inr False"
proof -
  let ?e = "[(''id'', Str ''X''), (''interface'', Str ''public''), (''region_id'', Str ''R1'')]"
  let ?f1 = "[(''interface'', Str ''public''), (''region_id'', Lst [Str ''R1'', Str ''R2''])]"
  let ?f2 = "[(''interface'', Str ''admin''), (''region_id'', Lst [Str ''R1'', Str ''R2''])]"
  let ?f3 = "[(''interface'', Str ''public''), (''service_id'', Str ''s'')]"
  let ?f4 = "[(''interface'', Str ''admin''), (''service_id'', Str ''s'')]"
  have 1: "is_candidate ?e ?f1 = Inr True"
    using is_candidate_matching [of ?e ?f1] by (simp add: accepted_values_def)
  have "\<forall>(key, val) \<in> set ?f2. map_of ?e key \<noteq> None" by simp
  with is_candidate_matching [of ?e ?f2]
  have 2: "\<exists>b. is_candidate ?e ?f2 = Inr b" by blast
  have "?f3 = [(''interface'', Str ''public'')] @ (''service_id'', Str ''s'') # [] \<and>
        map_of ?e ''service_id'' = None" by simp
  with is_candidate_matching [of ?e ?f3]
  have "is_candidate ?e ?f3 =
          (case is_candidate ?e [(''interface'', Str ''public'')] of
             Inr True \<Rightarrow> Inl (KeyError ''service_id'')
           | other \<Rightarrow> other)" by blast
  then have 3: "is_candidate ?e ?f3 = Inl (KeyError ''service_id'')"
    by (simp add: getitem_def)
  have "?f4 = [(''interface'', Str ''admin'')] @ (''service_id'', Str ''s'') # [] \<and>
        map_of ?e ''service_id'' = None" by simp
  with is_candidate_matching [of ?e ?f4]
  have "is_candidate ?e ?f4 =
          (case is_candidate ?e [(''interface'', Str ''admin'')] of
             Inr True \<Rightarrow> Inl (KeyError ''service_id'')
           | other \<Rightarrow> other)" by blast
  then have 4: "is_candidate ?e ?f4 = Inr False"
    by (simp add: getitem_def)
  from 1 2 3 4 show ?thesis by (intro conjI)
qed

text \<open>
  Claim C2 as stated fails: for an endpoint without the filter key the operation does not
  answer "no match", it raises \<^verbatim>\<open>KeyError\<close>.
\<close>

theorem is_candidate_counterexample:
  "map_of [(''id'', Str ''X''), (''interface'', Str ''public''), (''region_id'', Str ''R1'')]
     ''service_id'' = None \<and>
   is_candidate [(''id'', Str ''X''), (''interface'', Str ''public''), (''region_id'', Str ''R1'')]
     [(''service_id'', Str ''s'')] = Inl (KeyError ''service_id'')"
  by (simp add: getitem_def)





text \<open>
  Claim C4. Whenever a direct association of the project references an endpoint id that
  the catalog lookup reports as not found, \<^verbatim>\<open>list_endpoints_for_project\<close> issues a call of
  \<^verbatim>\<open>remove_endpoint_from_project\<close> for that endpoint id and the project, and the calls it
  issues are exactly those for the stale associations, in their order; the association is
  gone from the store and its endpoint id is not a key of the returned mapping; and
  resolution continues: every association that is not stale has its endpoint in the
  returned mapping.
\<close>

theorem stale_association_removed:
  assumes "ref \<in> set (driver_list_endpoints_for_project st project_id)"
    and "is_stale st ref"
    and "list_endpoints_for_project project_id st = (result, st')"
  shows "removal_calls st' =
           removal_calls st @
           map (\<lambda>ref. (Str (ref_endpoint_id ref), project_id))
             (filter (is_stale st) (driver_list_endpoints_for_project st project_id)) \<and>
         (Str (ref_endpoint_id ref), project_id) \<in> set (removal_calls st') \<and>
         ref \<notin> set (project_endpoints st') \<and>
         (\<forall>filtered. result = Inr filtered \<longrightarrow>
            map_of filtered (Str (ref_endpoint_id ref)) = None) \<and>
         (\<forall>other \<in> set (driver_list_endpoints_for_project st project_id).
            \<not> is_stale st other \<longrightarrow>
              (\<forall>filtered. result = Inr filtered \<longrightarrow>
                 (\<exists>ep. catalog_api_get_endpoint st (Str (ref_endpoint_id other)) = Inr ep \<and>
                    map_of filtered (Str (ref_endpoint_id other)) = Some ep)))"
proof -
  let ?refs = "driver_list_endpoints_for_project st project_id"
  have "\<forall>r \<in> set ?refs. lookup_answers st r"
    using stale_lookup_answers [OF assms(2)] by blast
  from resolution_when_lookups_answer [OF this assms(3)]
  have calls: "removal_calls st' =
           removal_calls st @
           map (\<lambda>ref. (Str (ref_endpoint_id ref), project_id)) (filter (is_stale st) ?refs)"
    and each: "\<forall>ref \<in> set ?refs.
            if is_stale st ref
            then ref \<notin> set (project_endpoints st') \<and>
                 (\<forall>filtered. result = Inr filtered \<longrightarrow>
                    map_of filtered (Str (ref_endpoint_id ref)) = None)
            else \<forall>filtered. result = Inr filtered \<longrightarrow>
                   (\<exists>ep. catalog_api_get_endpoint st (Str (ref_endpoint_id ref)) = Inr ep \<and>
                      map_of filtered (Str (ref_endpoint_id ref)) = Some ep)"
    by blast+
  from assms(1,2) have "ref \<in> set (filter (is_stale st) ?refs)" by simp
  then have "(Str (ref_endpoint_id ref), project_id) \<in>
               set (map (\<lambda>ref. (Str (ref_endpoint_id ref), project_id)) (filter (is_stale st) ?refs))"
    by (auto intro!: image_eqI)
  with calls have 2: "(Str (ref_endpoint_id ref), project_id) \<in> set (removal_calls st')" by simp
  from each assms(1,2) have 3: "ref \<notin> set (project_endpoints st') \<and>
                 (\<forall>filtered. result = Inr filtered \<longrightarrow>
                    map_of filtered (Str (ref_endpoint_id ref)) = None)"
    by (auto split: if_splits)
  have 4: "\<forall>other \<in> set ?refs. \<not> is_stale st other \<longrightarrow>
              (\<forall>filtered. result = Inr filtered \<longrightarrow>
                 (\<exists>ep. catalog_api_get_endpoint st (Str (ref_endpoint_id other)) = Inr ep \<and>
                    map_of filtered (Str (ref_endpoint_id other)) = Some ep))"
  proof (intro ballI impI)
    fix other assume "other \<in> set ?refs" and "\<not> is_stale st other"
    with each show "\<forall>filtered. result = Inr filtered \<longrightarrow>
                 (\<exists>ep. catalog_api_get_endpoint st (Str (ref_endpoint_id other)) = Inr ep \<and>
                    map_of filtered (Str (ref_endpoint_id other)) = Some ep)"
      by (auto split: if_splits)
  qed
  from calls 2 3 4 show ?thesis by blast
qed

text \<open>
  The theorem at the example store: the association of \<^verbatim>\<open>p\<close> with \<^verbatim>\<open>Z\<close> is stale; one
  removal call is issued, for \<^verbatim>\<open>Z\<close>, and the result holds \<^verbatim>\<open>X\<close> and \<^verbatim>\<open>Y\<close>.
\<close>

theorem stale_association_removed_witness:
  "\<lparr>ref_endpoint_id = ''Z'', ref_project_id = ''p''\<rparr> \<in>
     set (driver_list_endpoints_for_project example_store ''p'') \<and>
   is_stale example_store \<lparr>ref_endpoint_id = ''Z'', ref_project_id = ''p''\<rparr> \<and>
   \<not> is_stale example_store \<lparr>ref_endpoint_id = ''X'', ref_project_id = ''p''\<rparr> \<and>
   list_endpoints_for_project ''p'' example_store =
     (Inr [(Str ''X'', endpoint_X), (Str ''Y'', endpoint_Y)],
      example_store
        \<lparr>project_endpoints := [\<lparr>ref_endpoint_id = ''X'', ref_project_id = ''p''\<rparr>],
         removal_calls := [(Str ''Z'', ''p'')]\<rparr>) \<and>
   (Str ''Z'', ''p'') \<in>
     set (removal_calls
            (example_store
               \<lparr>project_endpoints := [\<lparr>ref_endpoint_id = ''X'', ref_project_id = ''p''\<rparr>],
                removal_calls := [(Str ''Z'', ''p'')]\<rparr>)) \<and>
   map_of [(Str ''X'', endpoint_X), (Str ''Y'', endpoint_Y)] (Str ''Z'') = None \<and>
   map_of [(Str ''X'', endpoint_X), (Str ''Y'', endpoint_Y)] (Str ''X'') = Some endpoint_X"
proof -
  let ?X = "\<lparr>ref_endpoint_id = ''X'', ref_project_id = ''p''\<rparr>"
  let ?Z = "\<lparr>ref_endpoint_id = ''Z'', ref_project_id = ''p''\<rparr>"
  let ?res = "Inr [(Str ''X'', endpoint_X), (Str ''Y'', endpoint_Y)] :: exn + filtered_endpoints"
  let ?st' = "example_store\<lparr>project_endpoints := [?X], removal_calls := [(Str ''Z'', ''p'')]\<rparr>"
  have refs: "driver_list_endpoints_for_project example_store ''p'' = [?X, ?Z]"
    by (simp add: driver_list_endpoints_for_project_def example_store_def)
  have lX: "catalog_api_get_endpoint example_store (Str ''X'') = Inr endpoint_X"
    by (simp add: catalog_api_get_endpoint_def example_store_def endpoint_X_def endpoint_Y_def
        getitem_def)
  have lZ: "catalog_api_get_endpoint example_store (Str ''Z'') = Inl (EndpointNotFound (Str ''Z''))"
    by (simp add: catalog_api_get_endpoint_def example_store_def endpoint_X_def endpoint_Y_def
        getitem_def)
  have h1: "?Z \<in> set (driver_list_endpoints_for_project example_store ''p'')"
    unfolding refs by simp
  have h2: "is_stale example_store ?Z" by (simp add: is_stale_def lZ)
  have sX: "\<not> is_stale example_store ?X" by (simp add: is_stale_def lX)
  have h3: "list_endpoints_for_project ''p'' example_store = (?res, ?st')"
    by (rule example_resolution)
  note inst = stale_association_removed [OF h1 h2 h3]
  note called = inst [THEN conjunct2, THEN conjunct1]
  note omitted = inst [THEN conjunct2, THEN conjunct2, THEN conjunct2, THEN conjunct1]
  note others = inst [THEN conjunct2, THEN conjunct2, THEN conjunct2, THEN conjunct2]
  from called have c: "(Str ''Z'', ''p'') \<in> set (removal_calls ?st')" by simp
  from omitted have z: "map_of [(Str ''X'', endpoint_X), (Str ''Y'', endpoint_Y)] (Str ''Z'') = None"
    by simp
  have "?X \<in> set (driver_list_endpoints_for_project example_store ''p'')"
    unfolding refs by simp
  with others have "\<not> is_stale example_store ?X \<longrightarrow>
      (\<forall>filtered. ?res = Inr filtered \<longrightarrow>
         (\<exists>ep. catalog_api_get_endpoint example_store (Str (ref_endpoint_id ?X)) = Inr ep \<and>
            map_of filtered (Str (ref_endpoint_id ?X)) = Some ep))"
    by (rule bspec)
  with sX obtain ep where
    "catalog_api_get_endpoint example_store (Str (ref_endpoint_id ?X)) = Inr ep"
    "map_of [(Str ''X'', endpoint_X), (Str ''Y'', endpoint_Y)] (Str (ref_endpoint_id ?X)) = Some ep"
    by blast
  with lX have x: "map_of [(Str ''X'', endpoint_X), (Str ''Y'', endpoint_Y)] (Str ''X'') =
      Some endpoint_X" by simp
  from h1 h2 sX h3 c z x show ?thesis by (intro conjI)
qed







text \<open>
  Claim C7. \<^verbatim>\<open>list_services\<close> returns the values of a dictionary keyed by service type, so
  at most one record per service type however many regions have it; the record of a
  service type is the one built from its last entry in the order of processing
  (last write wins), and a service type without an entry has no record.
\<close>

theorem list_services_last_write_wins:
  "\<exists>service_dict.
     list_services uuid5 templates = map snd service_dict \<and>
     distinct (map fst service_dict) \<and>
     (\<forall>service.
        map_of service_dict service =
          (if service_occurrences templates service = [] then None
           else Some (service_record uuid5 service (last (service_occurrences templates service)))))"
proof -
  let ?sd = "templates_services uuid5 templates []"
  have "list_services uuid5 templates = map snd ?sd" by (simp add: list_services_def)
  moreover have "distinct (map fst ?sd)" by (simp add: templates_services_distinct)
  moreover have "\<forall>service. map_of ?sd service =
          (if service_occurrences templates service = [] then None
           else Some (service_record uuid5 service (last (service_occurrences templates service))))"
    by (simp add: templates_services_map_of)
  ultimately show ?thesis by blast
qed

text \<open>
  Claim C8. Matching is monotonically restrictive in the filters: when an endpoint matches
  the filters extended with a pair whose key they do not have, wherever the iteration
  reaches the new pair, it matches the filters without the pair.
\<close>

theorem is_candidate_monotone:
  assumes "key \<notin> fst ` set (pre @ post)"
    and "is_candidate endpoint (pre @ (key, val) # post) = Inr True"
  shows "is_candidate endpoint (pre @ post) = Inr True"
  using assms(2) unfolding is_candidate_True_iff by auto

text \<open>The theorem at a filter on the interface, extended with one on the region.\<close>

theorem is_candidate_monotone_witness:
  "''region_id'' \<notin> fst ` set ([(''interface'', Str ''public'')] @ []) \<and>
   is_candidate [(''id'', Str ''X''), (''interface'', Str ''public''), (''region_id'', Str ''R1'')]
     ([(''interface'', Str ''public'')] @ (''region_id'', Str ''R1'') # []) = Inr True \<and>
   is_candidate [(''id'', Str ''X''), (''interface'', Str ''public''), (''region_id'', Str ''R1'')]
     ([(''interface'', Str ''public'')] @ []) = Inr True"
proof -
  let ?e = "[(''id'', Str ''X''), (''interface'', Str ''public''), (''region_id'', Str ''R1'')]"
  have h1: "''region_id'' \<notin> fst ` set ([(''interface'', Str ''public'')] @ [])" by simp
  have h2: "is_candidate ?e ([(''interface'', Str ''public'')] @ (''region_id'', Str ''R1'') # []) = Inr True"
    by (simp add: getitem_def)
  from is_candidate_monotone [OF h1 h2] h1 h2 show ?thesis by (intro conjI)
qed

text \<open>
  Claim C9. When some service entry of the template has a key with \<^verbatim>\<open>URL\<close> in it (an
  interface URL) and no \<^verbatim>\<open>name\<close> attribute, \<^verbatim>\<open>list_endpoints\<close> fails with the
  \<^verbatim>\<open>KeyError\<close> of \<^verbatim>\<open>service_ref['name']\<close>, whatever the other entries are: nothing catches
  it, so it reaches the caller and no endpoint list is returned.
\<close>

theorem list_endpoints_missing_name:
  assumes "(region, region_ref) \<in> set templates"
    and "(service, service_ref) \<in> set region_ref"
    and "(k, v) \<in> set service_ref"
    and "str_contains ''URL'' k"
    and "map_of service_ref ''name'' = None"
  shows "list_endpoints uuid5 templates = Inl (KeyError ''name'')"
  unfolding list_endpoints_def using assms by (rule templates_endpoints_no_name)

text \<open>The theorem at a template whose second service has a \<^verbatim>\<open>publicURL\<close> and no name.\<close>

theorem list_endpoints_missing_name_witness:
  "str_contains ''URL'' ''publicURL'' \<and>
   map_of [(''publicURL'', ''http://localhost/'')] ''name'' = None \<and>
   list_endpoints id
     [(''RegionOne'', [(''identity'', [(''name'', ''Identity''), (''adminURL'', ''http://a/'')]),
                       (''compute'', [(''publicURL'', ''http://localhost/'')])])]
     = Inl (KeyError ''name'')"
proof -
  let ?sref = "[(''publicURL'', ''http://localhost/'')]"
  let ?rref = "[(''identity'', [(''name'', ''Identity''), (''adminURL'', ''http://a/'')]),
                (''compute'', ?sref)]"
  let ?tpl = "[(''RegionOne'', ?rref)]"
  have h1: "(''RegionOne'', ?rref) \<in> set ?tpl" by simp
  have h2: "(''compute'', ?sref) \<in> set ?rref" by simp
  have h3: "(''publicURL'', ''http://localhost/'') \<in> set ?sref" by simp
  have h4: "str_contains ''URL'' ''publicURL''" by simp
  have h5: "map_of ?sref ''name'' = None" by simp
  from list_endpoints_missing_name [OF h1 h2 h3 h4 h5, of id] h4 h5 show ?thesis by simp
qed

text \<open>
  Claim C10. When \<^verbatim>\<open>list_endpoints_for_project\<close> returns the empty mapping,
  \<^verbatim>\<open>get_v3_catalog\<close> returns what the method of the base class returns for the user and
  the project if \<^verbatim>\<open>return_all_endpoints_if_no_filter\<close> is set, and the empty catalog if it
  is not: the project-scoped catalog depends on the option.
\<close>

theorem get_v3_catalog_no_filter:
  assumes "list_endpoints_for_project project_id st = (Inr [], st')"
  shows "get_v3_catalog fmt uuid5 super_get_v3_catalog conf templates user_id project_id st =
           (if return_all_endpoints_if_no_filter conf
            then super_get_v3_catalog user_id project_id
            else Inr [],
            st')"
  using assms by (simp add: get_v3_catalog_def)

text \<open>
  The theorem at project \<^verbatim>\<open>q\<close> of the example store, which has no association, with a
  base class that returns one service: with the option the catalog is that service,
  without it the catalog is empty.
\<close>

theorem get_v3_catalog_no_filter_witness:
  "list_endpoints_for_project ''q'' example_store = (Inr [], example_store) \<and>
   get_v3_catalog format_url id (\<lambda>user_id project_id. Inr [[(''type'', Str ''identity'')]])
     \<lparr>conf_items = [], eventlet_server_items = [], return_all_endpoints_if_no_filter = True\<rparr>
     [] ''u'' ''q'' example_store =
     (Inr [[(''type'', Str ''identity'')]], example_store) \<and>
   get_v3_catalog format_url id (\<lambda>user_id project_id. Inr [[(''type'', Str ''identity'')]])
     \<lparr>conf_items = [], eventlet_server_items = [], return_all_endpoints_if_no_filter = False\<rparr>
     [] ''u'' ''q'' example_store =
     (Inr [], example_store)"
proof -
  have h: "list_endpoints_for_project ''q'' example_store = (Inr [], example_store)"
    by (simp add: list_endpoints_for_project_def example_store_def
        driver_list_endpoints_for_project_def get_endpoint_groups_for_project_def
        resource_api_get_project_def driver_list_endpoint_groups_for_project_def)
  from get_v3_catalog_no_filter [OF h, of format_url id
      "\<lambda>user_id project_id. Inr [[(''type'', Str ''identity'')]]"
      "\<lparr>conf_items = [], eventlet_server_items = [], return_all_endpoints_if_no_filter = True\<rparr>"
      "[]" "''u''"]
    get_v3_catalog_no_filter [OF h, of format_url id
      "\<lambda>user_id project_id. Inr [[(''type'', Str ''identity'')]]"
      "\<lparr>conf_items = [], eventlet_server_items = [], return_all_endpoints_if_no_filter = False\<rparr>"
      "[]" "''u''"]
    h
  show ?thesis by simp
qed

end
